theory Spec2Isabelle
  imports Complex_Main "HOL-Library.Signed_Division"
begin

section \<open>The Bertrand oligopoly game\<close>

text \<open>
  A shallow embedding of \<^verbatim>\<open>open_spiel/games/bertrand_oligopoly/bertrand_oligopoly.cc\<close>
  and its header. Conventions of the embedding:
  \<^item> a C++ \<^verbatim>\<open>int\<close> is a HOL \<open>int\<close>; the counters of the game stay far below
    \<open>2^31\<close>, and signed overflow is undefined in C++, so no wrap-around is modelled;
  \<^item> a C++ \<^verbatim>\<open>double\<close> (and the \<^verbatim>\<open>float\<close> of a tensor) is a HOL \<open>real\<close>:
    the arithmetic is exact and rounding is outside the embedding; the payoff of a round,
    where the range of a double matters, has a second model with infinities and NaN;
  \<^item> the conversion of a \<^verbatim>\<open>double\<close> to an \<^verbatim>\<open>int\<close> truncates towards zero, as C++ does;
  \<^item> an \<^verbatim>\<open>Action\<close> of the framework is a 64-bit integer, here a HOL \<open>int\<close>; the
    validation reads it into an \<^verbatim>\<open>int\<close> (\<^verbatim>\<open>const int action = actions[p]\<close>), which keeps
    its low 32 bits, and every later use takes \<^verbatim>\<open>actions[p]\<close> as it is;
  \<^item> \<^verbatim>\<open>SPIEL_CHECK_*\<close> and \<^verbatim>\<open>SpielFatalError\<close> abort the call: the model of a
    function that changes the state returns the error together with the state as it is
    at that moment, the model of any other function returns the error or the result;
  \<^item> a \<^verbatim>\<open>for\<close> loop over \<open>0 \<le> p < n\<close> is a \<open>fold\<close> of its body over \<open>[0..<n]\<close>.
\<close>

subsection \<open>Constants of the framework\<close>

type_synonym Player = int
type_synonym Action = int

text \<open>
  Modelled from the spec: the player tokens (the simultaneous, the terminal and the chance
  token of section 6, the NONE marker of the win sequence of section 3) are declared by
  the framework, outside the game's files. The game only compares against them. They are
  distinct and negative, so none is a player index; the numbers are those of the
  framework's \<^verbatim>\<open>PlayerId\<close> enumeration.
\<close>

definition kChancePlayerId :: Player where
  "kChancePlayerId = - 1"

definition kSimultaneousPlayerId :: Player where
  "kSimultaneousPlayerId = - 2"

definition kInvalidPlayer :: Player where
  "kInvalidPlayer = - 3"

definition kTerminalPlayerId :: Player where
  "kTerminalPlayerId = - 4"

definition INT_MAX :: int where
  "INT_MAX = 2147483647"

text \<open>
  The conversion of a 64-bit \<^verbatim>\<open>Action\<close> to an \<^verbatim>\<open>int\<close>: the value modulo \<open>2^32\<close> in
  the range of a 32-bit integer in two's complement.
\<close>

definition narrow :: "Action \<Rightarrow> int" where
  "narrow x = (x + 2147483648) mod 4294967296 - 2147483648"

text \<open>The conversion \<^verbatim>\<open>int = double\<close> of C++: the fractional part is discarded.\<close>

definition double_to_int :: "real \<Rightarrow> int" where
  "double_to_int x = (if 0 \<le> x then \<lfloor>x\<rfloor> else \<lceil>x\<rceil>)"

datatype error = SpielFatalError

datatype ReturnsType = kWinLoss | kPointDifference | kTotalPoints

subsection \<open>The game descriptor and the state\<close>

record BertrandOligopolyGame =
  game_num_options :: int
  game_num_turns :: int
  game_interval_size :: real
  game_marginal_cost :: int
  game_horizontal_differentiation :: real
  game_outside_good :: int
  game_num_players :: int
  game_returns_type :: ReturnsType
  game_impinfo :: bool
  game_egocentric :: bool

record BertrandOligopolyState =
  num_players :: int
  num_options :: int
  num_turns :: int
  interval_size :: real
  marginal_cost :: int
  horizontal_differentiation :: real
  vertical_differentiation :: "real list"
  outside_good :: int
  returns_type :: ReturnsType
  impinfo :: bool
  egocentric :: bool
  monopoly_price :: real
  nash_price :: real
  interval :: "real \<times> real"
  step_size :: real
  net_profit :: "real list"
  current_player :: Player
  winners :: "int set"
  current_turn :: int
  points :: "real list"
  win_sequence :: "Player list"
  actions_history :: "Action list list"

text \<open>The defaults of the header (\<^verbatim>\<open>kDefaultNumPlayers\<close>, \<^verbatim>\<open>kDefaultNumOptions\<close>, ...).\<close>

definition kDefaultGame :: BertrandOligopolyGame where
  "kDefaultGame =
     \<lparr> game_num_options = 15, game_num_turns = 100, game_interval_size = 0.1,
       game_marginal_cost = 1, game_horizontal_differentiation = 0.25,
       game_outside_good = 0, game_num_players = 2, game_returns_type = kTotalPoints,
       game_impinfo = False, game_egocentric = False \<rparr>"

text \<open>
  The constructor of the state. \<^verbatim>\<open>SPIEL_CHECK_GT(num_options_, 1)\<close> is its only check;
  \<^verbatim>\<open>num_players_\<close> comes from the game through the base class.
\<close>

definition new_state ::
  "int \<Rightarrow> int \<Rightarrow> int \<Rightarrow> real \<Rightarrow> int \<Rightarrow> real \<Rightarrow> int \<Rightarrow> bool \<Rightarrow> bool \<Rightarrow> ReturnsType
     \<Rightarrow> error + BertrandOligopolyState" where
  "new_state n_players n_options n_turns i_size m_cost h_diff o_good imp ego r_type =
     (if \<not> n_options > 1 then Inl SpielFatalError
      else
        let nash = 1.47292;
            monopoly = 1.92498;
            lo = nash - i_size * (monopoly - nash);
            hi = monopoly + i_size * (monopoly - nash)
        in Inr \<lparr> num_players = n_players, num_options = n_options, num_turns = n_turns,
                 interval_size = i_size, marginal_cost = m_cost,
                 horizontal_differentiation = h_diff,
                 vertical_differentiation = replicate (nat n_players) 2,
                 outside_good = o_good, returns_type = r_type, impinfo = imp,
                 egocentric = ego, monopoly_price = monopoly, nash_price = nash,
                 interval = (lo, hi),
                 step_size = (hi - lo) / real_of_int (n_options - 1),
                 net_profit = replicate (nat n_players) 0,
                 current_player = kSimultaneousPlayerId, winners = {},
                 current_turn = 0, points = replicate (nat n_players) 0,
                 win_sequence = [], actions_history = [] \<rparr>)"

definition NewInitialState :: "BertrandOligopolyGame \<Rightarrow> error + BertrandOligopolyState" where
  "NewInitialState g =
     new_state (game_num_players g) (game_num_options g) (game_num_turns g)
       (game_interval_size g) (game_marginal_cost g) (game_horizontal_differentiation g)
       (game_outside_good g) (game_impinfo g) (game_egocentric g) (game_returns_type g)"

definition IsTerminal :: "BertrandOligopolyState \<Rightarrow> bool" where
  "IsTerminal s = (current_player s = kTerminalPlayerId)"

subsection \<open>Applying a joint action\<close>

text \<open>
  The validation loop: \<^verbatim>\<open>const int action = actions[p]; SPIEL_CHECK_GE(action, 0);
  SPIEL_CHECK_LT(action, num_options_)\<close>. The checks see the narrowed copy.
\<close>

definition actions_checked :: "BertrandOligopolyState \<Rightarrow> Action list \<Rightarrow> bool" where
  "actions_checked s actions =
     list_all (\<lambda>p. let action = narrow (actions ! p) in 0 \<le> action \<and> action < num_options s)
       [0..<nat (num_players s)]"

text \<open>
  The scan for the lowest price; the loop state is
  \<open>(min_price, num_min_prices, min_actor)\<close>.
\<close>

definition lowest_step :: "Action list \<Rightarrow> nat \<Rightarrow> int \<times> int \<times> int \<Rightarrow> int \<times> int \<times> int" where
  "lowest_step actions p acc =
     (case acc of (min_price, num_min_prices, min_actor) \<Rightarrow>
        if actions ! p < min_price then (actions ! p, 1, int p)
        else if actions ! p = min_price then (min_price, num_min_prices + 1, min_actor)
        else (min_price, num_min_prices, min_actor))"

definition lowest_price :: "Action list \<Rightarrow> int \<times> int \<times> int" where
  "lowest_price actions = fold (lowest_step actions) [0..<length actions] (INT_MAX, 0, - 1)"

definition round_winner :: "Action list \<Rightarrow> Player" where
  "round_winner actions =
     (case lowest_price actions of (min_price, num_min_prices, min_actor) \<Rightarrow>
        if num_min_prices = 1 then min_actor else kInvalidPlayer)"

text \<open>The payouts: \<^verbatim>\<open>price = (actions[p] * step_size_) + interval_.first\<close>.\<close>

definition price :: "BertrandOligopolyState \<Rightarrow> Action \<Rightarrow> real" where
  "price s a = real_of_int a * step_size s + fst (interval s)"

definition demand_term :: "BertrandOligopolyState \<Rightarrow> Action list \<Rightarrow> nat \<Rightarrow> real" where
  "demand_term s actions p =
     exp ((vertical_differentiation s ! p - price s (actions ! p)) / horizontal_differentiation s)"

definition demand_denominator :: "BertrandOligopolyState \<Rightarrow> Action list \<Rightarrow> real" where
  "demand_denominator s actions =
     fold (\<lambda>p d. d + demand_term s actions p) [0..<length actions]
       (exp (real_of_int (outside_good s) / horizontal_differentiation s))"

definition profit :: "BertrandOligopolyState \<Rightarrow> Action list \<Rightarrow> nat \<Rightarrow> real" where
  "profit s actions p =
     ((price s (actions ! p) - real_of_int (marginal_cost s)) * demand_term s actions p)
       / demand_denominator s actions"

definition payout_step ::
  "Action list \<Rightarrow> real \<Rightarrow> nat \<Rightarrow> BertrandOligopolyState \<Rightarrow> BertrandOligopolyState" where
  "payout_step actions denom p s =
     (let pr = price s (actions ! p);
          np = ((pr - real_of_int (marginal_cost s)) * demand_term s actions p) / denom
      in s\<lparr> net_profit := (net_profit s)[p := np],
            points := (points s)[p := points s ! p + np] \<rparr>)"

definition payouts :: "BertrandOligopolyState \<Rightarrow> Action list \<Rightarrow> BertrandOligopolyState" where
  "payouts s actions =
     fold (payout_step actions (demand_denominator s actions)) [0..<length actions] s"

text \<open>
  The winner determination at the end of the game; the loop state is
  \<open>(max_points, winners_)\<close>, where \<^verbatim>\<open>max_points\<close> is declared \<^verbatim>\<open>int\<close>, so the
  assignment \<^verbatim>\<open>max_points = points_[p]\<close> truncates.
\<close>

definition winner_step :: "real list \<Rightarrow> nat \<Rightarrow> int \<times> int set \<Rightarrow> int \<times> int set" where
  "winner_step pts p acc =
     (case acc of (max_points, ws) \<Rightarrow>
        if pts ! p > real_of_int max_points then (double_to_int (pts ! p), {int p})
        else if pts ! p = real_of_int max_points then (max_points, insert (int p) ws)
        else (max_points, ws))"

definition determine_winners :: "BertrandOligopolyState \<Rightarrow> int set" where
  "determine_winners s =
     snd (fold (winner_step (points s)) [0..<nat (num_players s)] (- 1, winners s))"

definition DoApplyActions ::
  "BertrandOligopolyState \<Rightarrow> Action list \<Rightarrow> error option \<times> BertrandOligopolyState" where
  "DoApplyActions s actions =
     (if int (length actions) \<noteq> num_players s then (Some SpielFatalError, s)
      else if \<not> actions_checked s actions then (Some SpielFatalError, s)
      else
        let s1 = s\<lparr> win_sequence := win_sequence s @ [round_winner actions] \<rparr>;
            s2 = payouts s1 actions;
            s3 = s2\<lparr> actions_history := actions_history s2 @ [actions] \<rparr>;
            s4 = s3\<lparr> current_turn := current_turn s3 + 1 \<rparr>
        in if current_turn s4 = num_turns s4
           then (None, s4\<lparr> winners := determine_winners s4,
                           current_player := kTerminalPlayerId \<rparr>)
           else (None, s4))"

text \<open>
  The driver of a simulation is the framework, not the game: it applies one joint action
  after the other and stops at the first fatal error.
\<close>

fun play ::
  "BertrandOligopolyState \<Rightarrow> Action list list \<Rightarrow> error option \<times> BertrandOligopolyState" where
  "play s [] = (None, s)"
| "play s (actions # rest) =
     (case DoApplyActions s actions of
        (Some e, s') \<Rightarrow> (Some e, s')
      | (None, s') \<Rightarrow> play s' rest)"

subsection \<open>Returns\<close>

text \<open>
  \<^verbatim>\<open>Returns()\<close>. The final \<^verbatim>\<open>SpielFatalError\<close> branch of the source needs a fourth value
  of the three-valued enumeration and has no counterpart here. \<^verbatim>\<open>std::set\<close> iterates in
  increasing order.
\<close>

definition Returns :: "BertrandOligopolyState \<Rightarrow> real list" where
  "Returns s =
     (if \<not> IsTerminal s then replicate (nat (num_players s)) 0
      else case returns_type s of
        kWinLoss \<Rightarrow>
          if int (card (winners s)) = num_players s then replicate (nat (num_players s)) 0
          else
            let num_winners = int (card (winners s));
                num_losers = num_players s - num_winners;
                returns = replicate (nat (num_players s)) (- 1 / real_of_int num_losers)
            in fold (\<lambda>winner r. r[nat winner := 1 / real_of_int num_winners])
                 (sorted_list_of_set (winners s)) returns
      | kPointDifference \<Rightarrow>
          (case fold (\<lambda>p (r, sm). (r[p := points s ! p], sm + points s ! p))
                  [0..<nat (num_players s)] (replicate (nat (num_players s)) 0, 0) of
             (returns, sm) \<Rightarrow>
               fold (\<lambda>p r. r[p := r ! p - sm / real_of_int (num_players s)])
                 [0..<nat (num_players s)] returns)
      | kTotalPoints \<Rightarrow>
          fold (\<lambda>p r. r[p := points s ! p])
            [0..<nat (num_players s)] (replicate (nat (num_players s)) 0))"

subsection \<open>The observer\<close>

datatype PrivateInfoType = kNone | kSinglePlayer | kAllPlayers

record IIGObservationType =
  public_info :: bool
  perfect_recall :: bool
  private_info :: PrivateInfoType

record BertrandOligopolyObserver =
  iig_obs_type :: IIGObservationType
  observer_egocentric :: bool

record SpanTensor =
  tensor_name :: string
  tensor_shape :: "int list"
  tensor_data :: "real list"

text \<open>
  Modelled from the spec: the allocator and its tensors belong to the framework and are
  not among the game's files. Section 4.4 of the specification describes the tensor view
  as named blocks of a fixed shape, "all zero-initialized before writing"; a block is
  stored row by row, and a write outside the block is an error.
\<close>

definition Get :: "string \<Rightarrow> int list \<Rightarrow> SpanTensor" where
  "Get name shape =
     \<lparr> tensor_name = name, tensor_shape = shape,
       tensor_data = replicate (nat (prod_list shape)) 0 \<rparr>"

definition at1 :: "SpanTensor \<Rightarrow> int \<Rightarrow> real \<Rightarrow> error + SpanTensor" where
  "at1 out i v =
     (case tensor_shape out of
        [d0] \<Rightarrow>
          if 0 \<le> i \<and> i < d0
          then Inr (out\<lparr> tensor_data := (tensor_data out)[nat i := v] \<rparr>)
          else Inl SpielFatalError
      | _ \<Rightarrow> Inl SpielFatalError)"

definition at2 :: "SpanTensor \<Rightarrow> int \<Rightarrow> int \<Rightarrow> real \<Rightarrow> error + SpanTensor" where
  "at2 out i j v =
     (case tensor_shape out of
        [d0, d1] \<Rightarrow>
          if 0 \<le> i \<and> i < d0 \<and> 0 \<le> j \<and> j < d1
          then Inr (out\<lparr> tensor_data := (tensor_data out)[nat (i * d1 + j) := v] \<rparr>)
          else Inl SpielFatalError
      | _ \<Rightarrow> Inl SpielFatalError)"

text \<open>A loop whose body may fail stops at the first failure.\<close>

fun fold_err :: "('a \<Rightarrow> 'b \<Rightarrow> error + 'b) \<Rightarrow> 'a list \<Rightarrow> 'b \<Rightarrow> error + 'b" where
  "fold_err f [] b = Inr b"
| "fold_err f (x # xs) b = (case f x b of Inl e \<Rightarrow> Inl e | Inr b' \<Rightarrow> fold_err f xs b')"

text \<open>
  \<^verbatim>\<open>NextPlayer(&count, &player)\<close>: the count is the loop index of its only caller, the
  player moves on cyclically (\<^verbatim>\<open>%\<close> of C++ is the remainder of the truncating division).
\<close>

definition NextPlayer :: "BertrandOligopolyState \<Rightarrow> int \<times> Player \<Rightarrow> int \<times> Player" where
  "NextPlayer s cp = (case cp of (count, player) \<Rightarrow> (count + 1, (player + 1) smod num_players s))"

definition WritePointsTotal ::
  "BertrandOligopolyGame \<Rightarrow> BertrandOligopolyState \<Rightarrow> int \<Rightarrow> error + SpanTensor" where
  "WritePointsTotal g s player =
     map_sum id snd
       (fold_err
          (\<lambda>n (p, out).
             case at1 out (int n) (points s ! nat p) of
               Inl e \<Rightarrow> Inl e
             | Inr out' \<Rightarrow> Inr (snd (NextPlayer s (int n, p)), out'))
          [0..<nat (game_num_players g)]
          (player, Get ''point_totals'' [game_num_players g]))"

definition one_hot_column :: "bool \<Rightarrow> int \<Rightarrow> Player \<Rightarrow> int \<Rightarrow> int" where
  "one_hot_column ego n_players winner player =
     (if ego then (n_players + winner - player) smod n_players else winner)"

definition WriteWinSequence ::
  "BertrandOligopolyObserver \<Rightarrow> BertrandOligopolyGame \<Rightarrow> BertrandOligopolyState \<Rightarrow> int
     \<Rightarrow> error + SpanTensor" where
  "WriteWinSequence obs g s player =
     fold_err
       (\<lambda>i out.
          if win_sequence s ! i \<noteq> kInvalidPlayer
          then at2 out (int i)
                 (one_hot_column (observer_egocentric obs) (game_num_players g)
                    (win_sequence s ! i) player) 1
          else Inr out)
       [0..<length (win_sequence s)]
       (Get ''win_sequence'' [game_num_turns g, game_num_players g])"

definition WritePlayerActionSequence ::
  "BertrandOligopolyGame \<Rightarrow> BertrandOligopolyState \<Rightarrow> int \<Rightarrow> error + SpanTensor" where
  "WritePlayerActionSequence g s player =
     fold_err
       (\<lambda>round out. at2 out (int round) (actions_history s ! round ! nat player) 1)
       [0..<length (actions_history s)]
       (Get ''player_action_sequence'' [game_num_turns g, game_num_options g])"

text \<open>A block that is not requested is not allocated.\<close>

definition write_if :: "bool \<Rightarrow> error + SpanTensor \<Rightarrow> error + SpanTensor list" where
  "write_if c w = (if c then map_sum id (\<lambda>t. [t]) w else Inr [])"

definition WriteTensor ::
  "BertrandOligopolyObserver \<Rightarrow> BertrandOligopolyGame \<Rightarrow> BertrandOligopolyState \<Rightarrow> int
     \<Rightarrow> error + SpanTensor list" where
  "WriteTensor obs g s player =
     (if \<not> player \<ge> 0 \<or> \<not> player < game_num_players g then Inl SpielFatalError
      else
        let imp_info = game_impinfo g;
            pub_info = public_info (iig_obs_type obs);
            perf_rec = perfect_recall (iig_obs_type obs);
            priv_one = (private_info (iig_obs_type obs) = kSinglePlayer)
        in case write_if pub_info (WritePointsTotal g s player) of
             Inl e \<Rightarrow> Inl e
           | Inr b1 \<Rightarrow>
               (case write_if (imp_info \<and> pub_info) (WriteWinSequence obs g s player) of
                  Inl e \<Rightarrow> Inl e
                | Inr b2 \<Rightarrow>
                    (case write_if (imp_info \<and> perf_rec \<and> priv_one)
                            (WritePlayerActionSequence g s player) of
                       Inl e \<Rightarrow> Inl e
                     | Inr b3 \<Rightarrow> Inr (b1 @ b2 @ b3))))"

definition MakeObserver ::
  "BertrandOligopolyGame \<Rightarrow> IIGObservationType \<Rightarrow> bool option \<Rightarrow> BertrandOligopolyObserver" where
  "MakeObserver g obs_type ego_param =
     \<lparr> iig_obs_type = obs_type,
       observer_egocentric = (case ego_param of None \<Rightarrow> game_egocentric g | Some e \<Rightarrow> e) \<rparr>"

definition InformationStateTensorShape :: "BertrandOligopolyGame \<Rightarrow> int list" where
  "InformationStateTensorShape g = [game_num_players g * game_num_options g]"

definition ObservationTensorShape :: "BertrandOligopolyGame \<Rightarrow> int list" where
  "ObservationTensorShape g = [game_num_players g * game_num_options g]"

definition entries_written :: "SpanTensor list \<Rightarrow> nat" where
  "entries_written blocks = sum_list (map (\<lambda>t. length (tensor_data t)) blocks)"

subsection \<open>Invariants used in the proofs\<close>

text \<open>
  What the scan for the lowest price knows after \<open>k\<close> actions: the least action so far,
  the number of players who chose it, and one of them.
\<close>

definition lowest_inv :: "Action list \<Rightarrow> nat \<Rightarrow> int \<times> int \<times> int \<Rightarrow> bool" where
  "lowest_inv a k acc =
     (case acc of (m, c, w) \<Rightarrow>
        if k = 0 then acc = (INT_MAX, 0, - 1)
        else (\<forall>p<k. m \<le> a ! p) \<and> 0 \<le> w \<and> nat w < k \<and> a ! nat w = m \<and>
             c = int (card {p. p < k \<and> a ! p = m}))"

text \<open>The state after the four steps of a valid application, before the end-of-game test.\<close>

definition applied :: "BertrandOligopolyState \<Rightarrow> Action list \<Rightarrow> BertrandOligopolyState" where
  "applied s a =
     s\<lparr> net_profit := net_profit (payouts s a), points := points (payouts s a),
        win_sequence := win_sequence s @ [round_winner a],
        actions_history := actions_history s @ [a],
        current_turn := current_turn s + 1 \<rparr>"

subsection \<open>The scenarios of the specification\<close>

text \<open>
  Two players, five price levels, a single round, a returns policy; everything else is
  the default. The state of a game whose construction succeeds is the right projection
  of \<open>NewInitialState\<close>.
\<close>

definition scenario_game :: "ReturnsType \<Rightarrow> BertrandOligopolyGame" where
  "scenario_game r =
     kDefaultGame\<lparr> game_num_options := 5, game_num_turns := 1, game_returns_type := r \<rparr>"

definition scenario_state :: "ReturnsType \<Rightarrow> BertrandOligopolyState" where
  "scenario_state r = projr (NewInitialState (scenario_game r))"

text \<open>
  The state after the tie \<open>[2, 2]\<close> in the scenario, and the profit of either player in
  that round: the price is \<open>1.69895\<close>, the demand term \<open>exp ((2 - 1.69895) / 0.25)\<close>.
\<close>

definition tie_state :: "ReturnsType \<Rightarrow> BertrandOligopolyState" where
  "tie_state r = snd (DoApplyActions (scenario_state r) [2, 2])"

definition tie_profit :: real where
  "tie_profit = 0.69895 * exp 1.2042 / (1 + 2 * exp 1.2042)"

subsection \<open>Play according to the rules\<close>

text \<open>A joint action that passes the validation of a state of the game \<open>g\<close>.\<close>

definition valid_joint_action :: "BertrandOligopolyGame \<Rightarrow> Action list \<Rightarrow> bool" where
  "valid_joint_action g a \<longleftrightarrow>
     int (length a) = game_num_players g \<and> (\<forall>x\<in>set a. 0 \<le> x \<and> x < game_num_options g)"

text \<open>
  What holds of every state that the game constructs and valid joint actions lead to:
  the configuration is the game's, the per-player vectors have one entry per player, the
  round counter counts the recorded rounds, and the state is terminal from the round on
  in which the counter reached \<open>num_turns\<close>.
\<close>

definition well_formed :: "BertrandOligopolyGame \<Rightarrow> BertrandOligopolyState \<Rightarrow> bool" where
  "well_formed g s \<longleftrightarrow>
     num_players s = game_num_players g \<and>
     num_options s = game_num_options g \<and>
     num_turns s = game_num_turns g \<and>
     horizontal_differentiation s = game_horizontal_differentiation g \<and>
     num_options s \<le> INT_MAX \<and>
     length (points s) = nat (num_players s) \<and>
     length (net_profit s) = nat (num_players s) \<and>
     vertical_differentiation s = replicate (nat (num_players s)) 2 \<and>
     current_turn s = int (length (win_sequence s)) \<and>
     length (actions_history s) = length (win_sequence s) \<and>
     (IsTerminal s \<longleftrightarrow> 1 \<le> num_turns s \<and> num_turns s \<le> current_turn s) \<and>
     (\<forall>w\<in>set (win_sequence s). w = kInvalidPlayer \<or> (0 \<le> w \<and> w < num_players s)) \<and>
     (\<forall>a\<in>set (actions_history s). valid_joint_action g a) \<and>
     finite (winners s) \<and> (\<forall>w\<in>winners s. 0 \<le> w \<and> w < num_players s)"

text \<open>A game of no rounds.\<close>

definition zero_turn_game :: BertrandOligopolyGame where
  "zero_turn_game = kDefaultGame\<lparr> game_num_turns := 0 \<rparr>"

definition zero_turn_state :: BertrandOligopolyState where
  "zero_turn_state = projr (NewInitialState zero_turn_game)"

subsection \<open>The rows of the win-sequence block\<close>

text \<open>
  What \<open>WriteWinSequence\<close> has written after \<open>k\<close> rounds: in the row of a round below
  \<open>k\<close> with a winner, a single 1 in the winner's column; 0 everywhere else.
\<close>

definition win_rows ::
  "bool \<Rightarrow> int \<Rightarrow> int \<Rightarrow> Player list \<Rightarrow> int \<Rightarrow> nat \<Rightarrow> SpanTensor \<Rightarrow> bool" where
  "win_rows ego T N ws player k out \<longleftrightarrow>
     tensor_name out = ''win_sequence'' \<and> tensor_shape out = [T, N] \<and>
     length (tensor_data out) = nat T * nat N \<and>
     (\<forall>i<nat T. \<forall>c<nat N.
        tensor_data out ! (i * nat N + c) =
          (if i < k \<and> ws ! i \<noteq> kInvalidPlayer \<and>
              int c = (if ego then (N + ws ! i - player) mod N else ws ! i)
           then 1 else 0))"

subsection \<open>The observers of the game\<close>

text \<open>
  Modelled from the spec: the two observation types that the constructor of the game
  uses are declared by the framework, outside the game's files. In the flags of section
  4.4, both are public and private to the requesting player, and the information-state
  type has perfect recall. The constructor makes the game's observers from them, with
  the game's own \<open>egocentric\<close> flag as parameter.
\<close>

definition kDefaultObsType :: IIGObservationType where
  "kDefaultObsType = \<lparr> public_info = True, perfect_recall = False, private_info = kSinglePlayer \<rparr>"

definition kInfoStateObsType :: IIGObservationType where
  "kInfoStateObsType = \<lparr> public_info = True, perfect_recall = True, private_info = kSinglePlayer \<rparr>"

definition default_observer :: "BertrandOligopolyGame \<Rightarrow> BertrandOligopolyObserver" where
  "default_observer g = MakeObserver g kDefaultObsType (Some (game_egocentric g))"

definition info_state_observer :: "BertrandOligopolyGame \<Rightarrow> BertrandOligopolyObserver" where
  "info_state_observer g = MakeObserver g kInfoStateObsType (Some (game_egocentric g))"

text \<open>The blocks that \<open>WriteTensor\<close> allocates, in their order, when every write succeeds.\<close>

definition blocks_requested ::
  "BertrandOligopolyObserver \<Rightarrow> BertrandOligopolyGame \<Rightarrow> SpanTensor \<Rightarrow> SpanTensor \<Rightarrow> SpanTensor
     \<Rightarrow> SpanTensor list" where
  "blocks_requested obs g pt wt pa =
     (if public_info (iig_obs_type obs) then [pt] else []) @
     (if game_impinfo g \<and> public_info (iig_obs_type obs) then [wt] else []) @
     (if game_impinfo g \<and> perfect_recall (iig_obs_type obs) \<and>
         private_info (iig_obs_type obs) = kSinglePlayer then [pa] else [])"

text \<open>
  The scenario with imperfect information and egocentric observers, and the default game
  with imperfect information.
\<close>

definition recall_game :: BertrandOligopolyGame where
  "recall_game = (scenario_game kTotalPoints)\<lparr> game_impinfo := True, game_egocentric := True \<rparr>"

definition recall_state :: BertrandOligopolyState where
  "recall_state = projr (NewInitialState recall_game)"

definition imperfect_default_game :: BertrandOligopolyGame where
  "imperfect_default_game = kDefaultGame\<lparr> game_impinfo := True \<rparr>"

text \<open>
  The scenario with imperfect information in a game of no rounds, and its state after
  the joint action \<open>[0, 4]\<close>.
\<close>

definition zero_turn_recall_game :: BertrandOligopolyGame where
  "zero_turn_recall_game = recall_game\<lparr> game_num_turns := 0 \<rparr>"

definition zero_turn_recall_state :: BertrandOligopolyState where
  "zero_turn_recall_state = snd (play (projr (NewInitialState zero_turn_recall_game)) [[0, 4]])"

subsection \<open>The range of a double\<close>



















section \<open>Properties\<close>

subsection \<open>The loops of the payout\<close>

lemma payout_fold_fields:
  "fold (payout_step a d) ps s =
     s\<lparr> net_profit := fold (\<lambda>p np. np[p := ((price s (a ! p) - real_of_int (marginal_cost s)) * demand_term s a p) / d]) ps (net_profit s),
        points := fold (\<lambda>p pt. pt[p := pt ! p + ((price s (a ! p) - real_of_int (marginal_cost s)) * demand_term s a p) / d]) ps (points s) \<rparr>"
proof (induction ps arbitrary: s)
  case Nil
  then show ?case by simp
next
  case (Cons p ps)
  show ?case
    apply (simp only: fold_simps comp_apply)
    apply (subst Cons.IH)
    apply (simp add: payout_step_def Let_def price_def demand_term_def)
    done
qed

lemma fold_add_nth:
  "n \<le> length pt \<Longrightarrow>
     length (fold (\<lambda>p pt. pt[p := pt ! p + f p]) [0..<n] pt) = length pt \<and>
     (\<forall>i<length pt. fold (\<lambda>p pt. pt[p := pt ! p + f p]) [0..<n] pt ! i =
        (if i < n then pt ! i + f i else pt ! i))"
proof (induction n)
  case 0
  then show ?case by simp
next
  case (Suc n)
  then show ?case by (auto simp: nth_list_update)
qed

lemma fold_set_nth:
  "n \<le> length np \<Longrightarrow>
     length (fold (\<lambda>p np. np[p := f p]) [0..<n] np) = length np \<and>
     (\<forall>i<length np. fold (\<lambda>p np. np[p := f p]) [0..<n] np ! i =
        (if i < n then f i else np ! i))"
proof (induction n)
  case 0
  then show ?case by simp
next
  case (Suc n)
  then show ?case by (auto simp: nth_list_update)
qed

lemma fold_sum_upt:
  "fold (\<lambda>p d. d + g p) [0..<n] (d0::real) = d0 + (\<Sum>p<n. g p)"
  by (induction n) simp_all

subsection \<open>The scan for the lowest price\<close>

lemma card_less_Suc_eq:
  "card {p. p < Suc k \<and> a ! p = (m::int)} =
     (if a ! k = m then Suc (card {p. p < k \<and> a ! p = m}) else card {p. p < k \<and> a ! p = m})"
proof -
  have fin: "finite {p. p < k \<and> a ! p = m}" by simp
  have "{p. p < Suc k \<and> a ! p = m} =
          (if a ! k = m then insert k {p. p < k \<and> a ! p = m} else {p. p < k \<and> a ! p = m})"
    by (auto simp: less_Suc_eq)
  then show ?thesis using fin by simp
qed

lemma lowest_inv_step:
  assumes inv: "lowest_inv a k acc" and lt: "a ! k < INT_MAX"
  shows "lowest_inv a (Suc k) (lowest_step a k acc)"
proof -
  obtain m c w where acc: "acc = (m, c, w)" by (cases acc) auto
  show ?thesis
  proof (cases "k = 0")
    case True
    have "{p. p = 0 \<and> a ! p = a ! 0} = {0::nat}" by auto
    with True inv acc lt show ?thesis
      by (auto simp: lowest_inv_def lowest_step_def)
  next
    case False
    with inv acc have h: "\<forall>p<k. m \<le> a ! p" "0 \<le> w" "nat w < k" "a ! nat w = m"
      "c = int (card {p. p < k \<and> a ! p = m})"
      by (auto simp: lowest_inv_def)
    consider "a ! k < m" | "a ! k = m" | "m < a ! k" by linarith
    then show ?thesis
    proof cases
      case 1
      have "{p. p < k \<and> a ! p = a ! k} = {}" using h(1) 1 by fastforce
      then have "card {p. p < Suc k \<and> a ! p = a ! k} = 1"
        by (simp add: card_less_Suc_eq)
      moreover have "\<forall>p<Suc k. a ! k \<le> a ! p" using h(1) 1 by (fastforce simp: less_Suc_eq)
      ultimately show ?thesis using 1 acc
        by (simp add: lowest_inv_def lowest_step_def)
    next
      case 2
      have "\<forall>p<Suc k. m \<le> a ! p" using h(1) 2 by (simp add: less_Suc_eq)
      moreover have "nat w < Suc k" using h(3) by simp
      moreover have "card {p. p < Suc k \<and> a ! p = m} = Suc (card {p. p < k \<and> a ! p = m})"
        using 2 by (simp add: card_less_Suc_eq)
      ultimately show ?thesis using 2 acc h(2,4,5)
        by (simp add: lowest_inv_def lowest_step_def)
    next
      case 3
      have "\<forall>p<Suc k. m \<le> a ! p" using h(1) 3 by (simp add: less_Suc_eq)
      moreover have "nat w < Suc k" using h(3) by simp
      moreover have "card {p. p < Suc k \<and> a ! p = m} = card {p. p < k \<and> a ! p = m}"
        using 3 by (simp add: card_less_Suc_eq)
      ultimately show ?thesis using 3 acc h(2,4,5)
        by (simp add: lowest_inv_def lowest_step_def)
    qed
  qed
qed

lemma lowest_inv_fold:
  assumes "\<forall>p<length a. a ! p < INT_MAX" and "k \<le> length a"
  shows "lowest_inv a k (fold (lowest_step a) [0..<k] (INT_MAX, 0, - 1))"
  using assms(2)
proof (induction k)
  case 0
  then show ?case by (simp add: lowest_inv_def)
next
  case (Suc k)
  then have "lowest_inv a k (fold (lowest_step a) [0..<k] (INT_MAX, 0, - 1))" by simp
  moreover have "a ! k < INT_MAX" using assms(1) Suc.prems by simp
  ultimately show ?case by (simp add: lowest_inv_step)
qed

lemma round_winner_unique:
  assumes bound: "\<forall>p<length a. a ! p < INT_MAX"
    and p: "p < length a" and least: "\<forall>q<length a. q \<noteq> p \<longrightarrow> a ! p < a ! q"
  shows "round_winner a = int p"
proof -
  obtain m c w where f: "lowest_price a = (m, c, w)" by (cases "lowest_price a") auto
  have "lowest_inv a (length a) (m, c, w)"
    using lowest_inv_fold [OF bound, of "length a"] f by (simp add: lowest_price_def)
  moreover have pos: "length a \<noteq> 0" using p by auto
  ultimately have h: "\<forall>q<length a. m \<le> a ! q" "0 \<le> w" "nat w < length a" "a ! nat w = m"
    "c = int (card {q. q < length a \<and> a ! q = m})"
    by (auto simp: lowest_inv_def)
  have "nat w = p"
  proof (rule ccontr)
    assume "nat w \<noteq> p"
    then have "a ! p < a ! nat w" using least h(3) by simp
    then show False using h(1,4) p by fastforce
  qed
  then have w: "w = int p" using h(2) by simp
  have "{q. q < length a \<and> a ! q = m} = {p}"
  proof -
    have "a ! p = m" using \<open>nat w = p\<close> h(4) by simp
    then show ?thesis using least p by fastforce
  qed
  then have "c = 1" using h(5) by simp
  then show ?thesis using f w by (simp add: round_winner_def)
qed

lemma round_winner_tie:
  assumes bound: "\<forall>p<length a. a ! p < INT_MAX"
    and p: "p < length a" and q: "q < length a" and pq: "p \<noteq> q"
    and eq: "a ! p = a ! q" and least: "\<forall>r<length a. a ! p \<le> a ! r"
  shows "round_winner a = kInvalidPlayer"
proof -
  obtain m c w where f: "lowest_price a = (m, c, w)" by (cases "lowest_price a") auto
  have "lowest_inv a (length a) (m, c, w)"
    using lowest_inv_fold [OF bound, of "length a"] f by (simp add: lowest_price_def)
  moreover have pos: "length a \<noteq> 0" using p by auto
  ultimately have h: "\<forall>q<length a. m \<le> a ! q" "0 \<le> w" "nat w < length a" "a ! nat w = m"
    "c = int (card {q. q < length a \<and> a ! q = m})"
    by (auto simp: lowest_inv_def)
  have "a ! p = m" using h(1,3,4) least p by (metis order_antisym)
  then have sub: "{p, q} \<subseteq> {r. r < length a \<and> a ! r = m}" using p q eq by auto
  have "card {p, q} \<le> card {r. r < length a \<and> a ! r = m}"
    by (rule card_mono [OF _ sub]) simp
  then have "2 \<le> card {r. r < length a \<and> a ! r = m}" using pq by simp
  then have "c \<noteq> 1" using h(5) by simp
  then show ?thesis using f by (simp add: round_winner_def)
qed

subsection \<open>A valid application, field by field\<close>

lemma payouts_frame:
  "payouts s a = s\<lparr> net_profit := net_profit (payouts s a), points := points (payouts s a) \<rparr>"
  unfolding payouts_def by (subst payout_fold_fields, subst payout_fold_fields, subst payout_fold_fields) simp

lemma demand_denominator_sum:
  "demand_denominator s a =
     exp (real_of_int (outside_good s) / horizontal_differentiation s)
       + (\<Sum>q<length a. demand_term s a q)"
  by (simp add: demand_denominator_def fold_sum_upt)


lemma payouts_points:
  assumes "length a \<le> length (points s)"
  shows "length (points (payouts s a)) = length (points s)"
    and "p < length (points s) \<Longrightarrow> points (payouts s a) ! p = (if p < length a then points s ! p + profit s a p else points s ! p)"
  using fold_add_nth [OF assms, of "\<lambda>p. ((price s (a ! p) - real_of_int (marginal_cost s)) * demand_term s a p) / demand_denominator s a"]
  unfolding payouts_def profit_def
  by (subst payout_fold_fields; simp)+

lemma payouts_net_profit:
  assumes "length a \<le> length (net_profit s)"
  shows "length (net_profit (payouts s a)) = length (net_profit s)"
    and "p < length (net_profit s) \<Longrightarrow> net_profit (payouts s a) ! p = (if p < length a then profit s a p else net_profit s ! p)"
  using fold_set_nth [OF assms, of "\<lambda>p. ((price s (a ! p) - real_of_int (marginal_cost s)) * demand_term s a p) / demand_denominator s a"]
  unfolding payouts_def profit_def
  by (subst payout_fold_fields; simp)+

lemma payouts_win_sequence_update:
  "payouts (s\<lparr> win_sequence := w \<rparr>) a = (payouts s a)\<lparr> win_sequence := w \<rparr>"
  unfolding payouts_def 
  apply (subst payout_fold_fields)
  apply (subst payout_fold_fields)
  apply (simp add: price_def demand_term_def demand_denominator_def)
  done

lemma DoApplyActions_valid:
  assumes "int (length a) = num_players s" and "actions_checked s a"
  shows "DoApplyActions s a =
           (None, if current_turn s + 1 = num_turns s
                  then (applied s a)\<lparr> winners := determine_winners (applied s a),
                                       current_player := kTerminalPlayerId \<rparr>
                  else applied s a)"
proof -
  have "payouts (s\<lparr> win_sequence := win_sequence s @ [round_winner a] \<rparr>) a
          = s\<lparr> net_profit := net_profit (payouts s a), points := points (payouts s a),
               win_sequence := win_sequence s @ [round_winner a] \<rparr>"
    by (subst payouts_win_sequence_update, subst payouts_frame) simp
  then show ?thesis using assms
    by (simp add: DoApplyActions_def Let_def applied_def)
qed

lemma DoApplyActions_invalid:
  assumes "int (length a) \<noteq> num_players s \<or> \<not> actions_checked s a"
  shows "DoApplyActions s a = (Some SpielFatalError, s)"
  using assms by (auto simp: DoApplyActions_def)

lemma actions_checked_iff:
  assumes "int (length a) = num_players s"
  shows "actions_checked s a \<longleftrightarrow> (\<forall>x\<in>set a. 0 \<le> narrow x \<and> narrow x < num_options s)"
proof -
  have "nat (num_players s) = length a" using assms by simp
  then show ?thesis
    by (auto simp: actions_checked_def list_all_iff all_set_conv_all_nth Let_def)
qed

lemma narrow_in_range: "0 \<le> x \<Longrightarrow> x \<le> INT_MAX \<Longrightarrow> narrow x = x"
  by (simp add: narrow_def INT_MAX_def)

lemma in_range_checked:
  assumes "int (length a) = num_players s" and "num_options s \<le> INT_MAX"
    and "\<forall>x\<in>set a. 0 \<le> x \<and> x < num_options s"
  shows "actions_checked s a"
  unfolding actions_checked_iff [OF assms(1)]
proof
  fix x assume "x \<in> set a"
  then have x: "0 \<le> x" "x < num_options s" using assms(3) by blast+
  then have "narrow x = x" using assms(2) by (intro narrow_in_range) linarith+
  then show "0 \<le> narrow x \<and> narrow x < num_options s" using x by simp
qed

lemma checked_below_INT_MAX:
  assumes "\<forall>x\<in>set a. 0 \<le> x \<and> x < num_options s" and "num_options s \<le> INT_MAX"
  shows "\<forall>p<length a. a ! p < INT_MAX"
proof (intro allI impI)
  fix p assume "p < length a"
  then have "a ! p \<in> set a" by simp
  then have "a ! p < num_options s" using assms(1) by blast
  then show "a ! p < INT_MAX" using assms(2) by linarith
qed

lemma DoApplyActions_win_sequence:
  assumes "int (length a) = num_players s" and "actions_checked s a"
  shows "win_sequence (snd (DoApplyActions s a)) = win_sequence s @ [round_winner a]"
  by (simp add: DoApplyActions_valid [OF assms] applied_def)

subsection \<open>The win sequence\<close>

text \<open>
  Claim C4. A valid joint action appends exactly one entry to the win sequence: the index
  of the player whose action is strictly below every other action, and
  \<open>kInvalidPlayer\<close> when two players share the least action. A valid joint action has
  one entry per player, each in \<open>[0, num_options)\<close>; \<open>num_options\<close> is a C++ \<^verbatim>\<open>int\<close>,
  so the entries are below \<open>INT_MAX\<close> and pass the validation unchanged.
\<close>

theorem win_sequence_appended:
  assumes "int (length actions) = num_players s"
    and "\<forall>x\<in>set actions. 0 \<le> x \<and> x < num_options s"
    and "num_options s \<le> INT_MAX"
  shows "fst (DoApplyActions s actions) = None \<and>
         (\<exists>w. win_sequence (snd (DoApplyActions s actions)) = win_sequence s @ [w] \<and>
              (\<forall>p<length actions.
                 (\<forall>q<length actions. q \<noteq> p \<longrightarrow> actions ! p < actions ! q) \<longrightarrow> w = int p) \<and>
              (\<forall>p<length actions. \<forall>q<length actions.
                 p \<noteq> q \<and> actions ! p = actions ! q \<and>
                 (\<forall>r<length actions. actions ! p \<le> actions ! r) \<longrightarrow> w = kInvalidPlayer))"
proof -
  note bound = checked_below_INT_MAX [OF assms(2,3)]
  note chk = in_range_checked [OF assms(1,3,2)]
  have "fst (DoApplyActions s actions) = None"
    by (simp add: DoApplyActions_valid [OF assms(1) chk])
  moreover have "win_sequence (snd (DoApplyActions s actions))
                   = win_sequence s @ [round_winner actions]"
    by (rule DoApplyActions_win_sequence [OF assms(1) chk])
  moreover have "\<forall>p<length actions.
       (\<forall>q<length actions. q \<noteq> p \<longrightarrow> actions ! p < actions ! q) \<longrightarrow> round_winner actions = int p"
    using round_winner_unique [OF bound] by blast
  moreover have "\<forall>p<length actions. \<forall>q<length actions.
       p \<noteq> q \<and> actions ! p = actions ! q \<and> (\<forall>r<length actions. actions ! p \<le> actions ! r)
         \<longrightarrow> round_winner actions = kInvalidPlayer"
    using round_winner_tie [OF bound] by blast
  ultimately show ?thesis by blast
qed

lemma scenario_state_fields:
  "scenario_state r =
     \<lparr> num_players = 2, num_options = 5, num_turns = 1,
       interval_size = 0.1, marginal_cost = 1, horizontal_differentiation = 0.25,
       vertical_differentiation = [2, 2], outside_good = 0,
       returns_type = r, impinfo = False, egocentric = False,
       monopoly_price = 1.92498, nash_price = 1.47292,
       interval = (1.427714, 1.970186), step_size = 0.135618,
       net_profit = [0, 0], current_player = kSimultaneousPlayerId, winners = {},
       current_turn = 0, points = [0, 0], win_sequence = [], actions_history = [] \<rparr>"
  by (simp add: scenario_state_def NewInitialState_def new_state_def scenario_game_def
      kDefaultGame_def Let_def numeral_2_eq_2)

lemma scenario_state_new: "NewInitialState (scenario_game r) = Inr (scenario_state r)"
  by (simp add: scenario_state_def NewInitialState_def new_state_def scenario_game_def
      kDefaultGame_def Let_def)

lemma scenario_checked:
  "int (length [x, y :: int]) = num_players (scenario_state r)"
  "actions_checked (scenario_state r) [x, y] \<longleftrightarrow>
     0 \<le> narrow x \<and> narrow x < 5 \<and> 0 \<le> narrow y \<and> narrow y < 5"
proof -
  show len: "int (length [x, y :: int]) = num_players (scenario_state r)"
    by (simp add: scenario_state_fields)
  show "actions_checked (scenario_state r) [x, y] \<longleftrightarrow>
          0 \<le> narrow x \<and> narrow x < 5 \<and> 0 \<le> narrow y \<and> narrow y < 5"
    unfolding actions_checked_iff [OF len] by (auto simp: scenario_state_fields)
qed

lemma narrow_numeral [simp]:
  "narrow 0 = 0" "narrow 1 = 1" "narrow 2 = 2" "narrow 3 = 3" "narrow 4 = 4" "narrow 5 = 5"
  "narrow 4294967296 = 0"
  by (simp_all add: narrow_def)

text \<open>
  The two scenarios of the specification: with five options and one turn, \<open>[0, 4]\<close>
  records player 0 and \<open>[2, 2]\<close> records no winner.
\<close>

theorem win_sequence_appended_witness:
  "int (length [0, 4 :: int]) = num_players (scenario_state kTotalPoints) \<and>
   num_options (scenario_state kTotalPoints) = 5 \<and>
   num_options (scenario_state kTotalPoints) \<le> INT_MAX \<and>
   win_sequence (snd (DoApplyActions (scenario_state kTotalPoints) [0, 4])) = [0] \<and>
   win_sequence (snd (DoApplyActions (scenario_state kTotalPoints) [2, 2])) = [kInvalidPlayer]"
proof -
  define s0 where "s0 = scenario_state kTotalPoints"
  have f: "num_players s0 = 2" "num_options s0 = 5" "win_sequence s0 = []"
    by (simp_all add: s0_def scenario_state_fields)
  have len: "int (length [0, 4 :: int]) = num_players s0"
    "int (length [2, 2 :: int]) = num_players s0" using f by simp_all
  have chk: "\<forall>x\<in>set [0, 4 :: int]. 0 \<le> x \<and> x < num_options s0"
    "\<forall>x\<in>set [2, 2 :: int]. 0 \<le> x \<and> x < num_options s0"
    using f by simp_all
  have mx: "num_options s0 \<le> INT_MAX" using f by (simp add: INT_MAX_def)
  have a: "win_sequence (snd (DoApplyActions s0 [0, 4])) = [0]"
  proof -
    from win_sequence_appended [OF len(1) chk(1) mx]
    obtain w where w: "win_sequence (snd (DoApplyActions s0 [0, 4])) = win_sequence s0 @ [w]"
      and u: "\<forall>p<length [0, 4 :: int].
                (\<forall>q<length [0, 4 :: int]. q \<noteq> p \<longrightarrow> [0, 4 :: int] ! p < [0, 4] ! q) \<longrightarrow> w = int p"
      by blast
    have "\<forall>q<length [0, 4 :: int]. q \<noteq> 0 \<longrightarrow> [0, 4 :: int] ! 0 < [0, 4] ! q"
      by (simp add: less_Suc_eq)
    with u have "w = 0" by fastforce
    with w f show ?thesis by simp
  qed
  have b: "win_sequence (snd (DoApplyActions s0 [2, 2])) = [kInvalidPlayer]"
  proof -
    from win_sequence_appended [OF len(2) chk(2) mx]
    obtain w where w: "win_sequence (snd (DoApplyActions s0 [2, 2])) = win_sequence s0 @ [w]"
      and t: "\<forall>p<length [2, 2 :: int]. \<forall>q<length [2, 2 :: int].
                 p \<noteq> q \<and> [2, 2 :: int] ! p = [2, 2] ! q \<and>
                 (\<forall>r<length [2, 2 :: int]. [2, 2 :: int] ! p \<le> [2, 2] ! r) \<longrightarrow> w = kInvalidPlayer"
      by blast
    have "(0::nat) \<noteq> 1 \<and> [2, 2 :: int] ! 0 = [2, 2] ! 1 \<and>
            (\<forall>r<length [2, 2 :: int]. [2, 2 :: int] ! 0 \<le> [2, 2] ! r)"
      by (simp add: less_Suc_eq)
    with t [rule_format, of 0 1] have "w = kInvalidPlayer" by simp
    with w f show ?thesis by simp
  qed
  show ?thesis using len(1) f(2) mx a b unfolding s0_def by blast
qed

subsection \<open>Validation\<close>

text \<open>
  A joint action of the wrong length, or with an entry whose narrowed copy is outside
  \<open>[0, num_options)\<close>, is fatal, and the state at the abort is the state before the
  call: both checks precede every assignment.
\<close>

lemma rejected_joint_action:
  assumes "int (length actions) \<noteq> num_players s \<or>
           (\<exists>x\<in>set actions. narrow x < 0 \<or> num_options s \<le> narrow x)"
  shows "DoApplyActions s actions = (Some SpielFatalError, s)"
proof (cases "int (length actions) = num_players s")
  case True
  with assms have "\<not> (\<forall>x\<in>set actions. 0 \<le> narrow x \<and> narrow x < num_options s)"
    by fastforce
  then have "\<not> actions_checked s actions" using actions_checked_iff [OF True] by simp
  then show ?thesis by (simp add: DoApplyActions_invalid)
next
  case False
  then show ?thesis by (simp add: DoApplyActions_invalid)
qed

lemma round_winner_wide: "round_winner [4294967296, 1] = 1"
  by (simp add: round_winner_def lowest_price_def lowest_step_def numeral_2_eq_2 INT_MAX_def)

text \<open>
  Claim C7 says that a joint action with an entry outside \<open>[0, num_options)\<close> is fatal
  and changes nothing. The validation tests \<^verbatim>\<open>const int action = actions[p]\<close>, the entry
  narrowed to 32 bits: in the scenario the entry \<open>4294967296\<close>, which is \<open>2^32\<close> and not
  below \<open>num_options = 5\<close>, is read as 0 and passes; the call succeeds, records the
  round and the joint action as it was given, and ends the game.
\<close>

theorem wide_entry_passes_validation:
  "int (length [4294967296, 1 :: int]) = num_players (scenario_state kTotalPoints) \<and>
   \<not> (4294967296 :: int) < num_options (scenario_state kTotalPoints) \<and>
   fst (DoApplyActions (scenario_state kTotalPoints) [4294967296, 1]) = None \<and>
   win_sequence (snd (DoApplyActions (scenario_state kTotalPoints) [4294967296, 1])) = [1] \<and>
   actions_history (snd (DoApplyActions (scenario_state kTotalPoints) [4294967296, 1]))
     = [[4294967296, 1]] \<and>
   current_turn (snd (DoApplyActions (scenario_state kTotalPoints) [4294967296, 1])) = 1 \<and>
   IsTerminal (snd (DoApplyActions (scenario_state kTotalPoints) [4294967296, 1]))"
proof -
  define s0 where "s0 = scenario_state kTotalPoints"
  have f: "num_players s0 = 2" "num_options s0 = 5" "win_sequence s0 = []"
    "actions_history s0 = []" "current_turn s0 = 0" "num_turns s0 = 1"
    by (simp_all add: s0_def scenario_state_fields)
  have len: "int (length [4294967296, 1 :: int]) = num_players s0" using f by simp
  have chk: "actions_checked s0 [4294967296, 1]"
    by (simp add: s0_def scenario_checked)
  have "current_turn s0 + 1 = num_turns s0" using f by simp
  then have e: "DoApplyActions s0 [4294967296, 1] =
      (None, (applied s0 [4294967296, 1])\<lparr>
         winners := determine_winners (applied s0 [4294967296, 1]),
         current_player := kTerminalPlayerId \<rparr>)"
    by (simp add: DoApplyActions_valid [OF len chk])
  show ?thesis
    unfolding s0_def [symmetric] e
    using f by (simp add: applied_def round_winner_wide IsTerminal_def)
qed

subsection \<open>The end of the game\<close>

lemma tie_profit_bounds: "0 < tie_profit" "tie_profit < 1"
proof -
  define e :: real where "e = exp 1.2042"
  have e: "0 < e" by (simp add: e_def)
  have t: "tie_profit = 0.69895 * e / (1 + 2 * e)" by (simp add: tie_profit_def e_def)
  show "0 < tie_profit" unfolding t using e by simp
  have "0.69895 * e < 1 + 2 * e" using e by simp
  then show "tie_profit < 1" unfolding t using e by simp
qed

lemma tie_round_profit:
  assumes "p < 2"
  shows "profit (scenario_state r) [2, 2] p = tie_profit"
proof -
  have d: "demand_denominator (scenario_state r) [2, 2] = 1 + 2 * exp 1.2042"
    by (simp add: demand_denominator_sum demand_term_def price_def scenario_state_fields
        lessThan_Suc numeral_2_eq_2)
  from assms consider "p = 0" | "p = 1" by linarith
  then show ?thesis
    unfolding profit_def d
    by cases (simp_all add: demand_term_def price_def scenario_state_fields tie_profit_def)
qed

lemma tie_points: "points (payouts (scenario_state r) [2, 2]) = [tie_profit, tie_profit]"
proof (rule nth_equalityI)
  have le: "length [2, 2 :: int] \<le> length (points (scenario_state r))"
    by (simp add: scenario_state_fields)
  show "length (points (payouts (scenario_state r) [2, 2])) = length [tie_profit, tie_profit]"
    using payouts_points(1) [OF le] by (simp add: scenario_state_fields)
  fix i assume "i < length (points (payouts (scenario_state r) [2, 2]))"
  then have i: "i < 2" using payouts_points(1) [OF le] by (simp add: scenario_state_fields)
  then have "points (payouts (scenario_state r) [2, 2]) ! i
               = points (scenario_state r) ! i + profit (scenario_state r) [2, 2] i"
    using payouts_points(2) [OF le, of i] by (simp add: scenario_state_fields)
  also have "\<dots> = tie_profit"
    using i tie_round_profit [OF i, of r]
    by (auto simp: scenario_state_fields less_2_cases_iff)
  finally show "points (payouts (scenario_state r) [2, 2]) ! i = [tie_profit, tie_profit] ! i"
    using i by (auto simp: less_2_cases_iff)
qed

lemma double_to_int_unit: "0 \<le> x \<Longrightarrow> x < 1 \<Longrightarrow> double_to_int x = 0"
  by (simp add: double_to_int_def floor_eq_iff)

lemma tie_winners:
  assumes "0 < x" and "x < 1"
  shows "snd (fold (winner_step [x, x]) [0..<2] (- 1, {})) = {1}"
proof -
  have "[0..<2] = [0, Suc 0]" by (simp add: numeral_2_eq_2)
  moreover have "winner_step [x, x] 0 (- 1, {}) = (0, {0})"
    using assms by (simp add: winner_step_def double_to_int_unit)
  moreover have "winner_step [x, x] (Suc 0) (0, {0}) = (0, {1})"
    using assms by (simp add: winner_step_def double_to_int_unit)
  ultimately show ?thesis by simp
qed

lemma tie_state_fields:
  "IsTerminal (tie_state r)"
  "points (tie_state r) = [tie_profit, tie_profit]"
  "winners (tie_state r) = {1}"
  "num_players (tie_state r) = 2"
  "returns_type (tie_state r) = r"
  "win_sequence (tie_state r) = [kInvalidPlayer]"
  "current_turn (tie_state r) = 1"
  "num_turns (tie_state r) = 1"
  "num_options (tie_state r) = 5"
  "actions_history (tie_state r) = [[2, 2]]"
proof -
  have chk: "actions_checked (scenario_state r) [2, 2]" by (simp add: scenario_checked)
  have ap: "applied (scenario_state r) [2, 2] =
              (scenario_state r)\<lparr> net_profit := net_profit (payouts (scenario_state r) [2, 2]),
                points := [tie_profit, tie_profit],
                win_sequence := [round_winner [2, 2]],
                actions_history := [[2, 2]], current_turn := 1 \<rparr>"
    by (simp add: applied_def tie_points) (simp add: scenario_state_fields)
  have w: "determine_winners (applied (scenario_state r) [2, 2]) = {1}"
    unfolding ap determine_winners_def
    using tie_winners [OF tie_profit_bounds] by (simp add: scenario_state_fields)
  have rw: "round_winner [2, 2] = kInvalidPlayer"
    by (simp add: round_winner_def lowest_price_def lowest_step_def numeral_2_eq_2 INT_MAX_def)
  have ts: "tie_state r = (applied (scenario_state r) [2, 2])\<lparr> winners := {1},
              current_player := kTerminalPlayerId \<rparr>"
    unfolding tie_state_def DoApplyActions_valid [OF scenario_checked(1) chk] w
    by (simp add: scenario_state_fields)
  show "IsTerminal (tie_state r)" by (simp add: ts IsTerminal_def)
  show "points (tie_state r) = [tie_profit, tie_profit]" by (simp add: ts ap)
  show "winners (tie_state r) = {1}" by (simp add: ts)
  show "num_players (tie_state r) = 2" by (simp add: ts ap) (simp add: scenario_state_fields)
  show "returns_type (tie_state r) = r" by (simp add: ts ap) (simp add: scenario_state_fields)
  show "win_sequence (tie_state r) = [kInvalidPlayer]" by (simp add: ts ap rw)
  show "current_turn (tie_state r) = 1" by (simp add: ts ap)
  show "num_turns (tie_state r) = 1" by (simp add: ts ap) (simp add: scenario_state_fields)
  show "num_options (tie_state r) = 5" by (simp add: ts ap) (simp add: scenario_state_fields)
  show "actions_history (tie_state r) = [[2, 2]]" by (simp add: ts ap)
qed

text \<open>
  Claim C1 says that the winners are exactly the players with the greatest points, every
  tie included. The loop keeps its running maximum in an \<^verbatim>\<open>int\<close>: in the scenario, after
  the tie \<open>[2, 2]\<close> both players hold the same points, strictly between 0 and 1; the
  maximum is truncated to 0 after player 0, player 1 then counts as strictly better, and
  the winners are \<open>{1}\<close> although player 0 has the greatest points as well.
\<close>

theorem tie_loses_a_winner:
  "fst (DoApplyActions (scenario_state kWinLoss) [2, 2]) = None \<and>
   IsTerminal (tie_state kWinLoss) \<and>
   points (tie_state kWinLoss) ! 0 = points (tie_state kWinLoss) ! 1 \<and>
   winners (tie_state kWinLoss) = {1}"
  using DoApplyActions_valid [OF scenario_checked(1), where r1 = kWinLoss and x1 = 2 and y1 = 2]
  by (simp add: tie_state_fields scenario_checked)

subsection \<open>States reached by valid joint actions\<close>

lemma well_formed_initial:
  assumes "NewInitialState g = Inr s0" and "game_num_options g \<le> INT_MAX"
  shows "well_formed g s0"
proof -
  have "1 < game_num_options g"
    using assms(1) by (auto simp: NewInitialState_def new_state_def split: if_splits)
  then have "s0 = projr (NewInitialState g)" and "NewInitialState g = new_state (game_num_players g) (game_num_options g) (game_num_turns g)
       (game_interval_size g) (game_marginal_cost g) (game_horizontal_differentiation g)
       (game_outside_good g) (game_impinfo g) (game_egocentric g) (game_returns_type g)"
    using assms(1) by (simp_all add: NewInitialState_def)
  then show ?thesis using \<open>1 < game_num_options g\<close> assms(2)
    by (simp add: new_state_def Let_def well_formed_def IsTerminal_def
        kSimultaneousPlayerId_def kTerminalPlayerId_def)
qed

lemma round_winner_range:
  assumes "\<forall>p<length a. a ! p < INT_MAX"
  shows "round_winner a = kInvalidPlayer \<or> (0 \<le> round_winner a \<and> round_winner a < int (length a))"
proof -
  obtain m c w where f: "lowest_price a = (m, c, w)" by (cases "lowest_price a") auto
  have inv: "lowest_inv a (length a) (m, c, w)"
    using lowest_inv_fold [OF assms, of "length a"] f by (simp add: lowest_price_def)
  show ?thesis
  proof (cases "length a = 0")
    case True
    with inv have "c = 0" by (simp add: lowest_inv_def)
    then show ?thesis using f by (simp add: round_winner_def)
  next
    case False
    with inv have "0 \<le> w" "nat w < length a" by (auto simp: lowest_inv_def)
    then show ?thesis using f by (auto simp: round_winner_def)
  qed
qed

lemma winner_step_range:
  assumes "finite ws" and "\<forall>w\<in>ws. 0 \<le> w \<and> w < int n" and "k < n"
  shows "finite (snd (winner_step pts k (m, ws))) \<and>
         (\<forall>w\<in>snd (winner_step pts k (m, ws)). 0 \<le> w \<and> w < int n)"
  using assms by (auto simp: winner_step_def)

lemma winner_fold_range:
  assumes "finite ws" and "\<forall>w\<in>ws. 0 \<le> w \<and> w < int n" and "k \<le> n"
  shows "finite (snd (fold (winner_step pts) [0..<k] (m, ws))) \<and>
         (\<forall>w\<in>snd (fold (winner_step pts) [0..<k] (m, ws)). 0 \<le> w \<and> w < int n)"
  using assms(3)
proof (induction k)
  case 0
  then show ?case using assms(1,2) by simp
next
  case (Suc k)
  obtain m' ws' where f: "fold (winner_step pts) [0..<k] (m, ws) = (m', ws')"
    by (cases "fold (winner_step pts) [0..<k] (m, ws)") auto
  with Suc have "finite ws'" "\<forall>w\<in>ws'. 0 \<le> w \<and> w < int n" by auto
  moreover have "k < n" using Suc.prems by simp
  moreover have "fold (winner_step pts) [0..<Suc k] (m, ws) = winner_step pts k (m', ws')"
    using f by simp
  ultimately show ?case using winner_step_range [of ws' n k pts m'] by simp
qed

lemma valid_joint_action_checked:
  assumes "well_formed g s" and "valid_joint_action g a"
  shows "int (length a) = num_players s" and "actions_checked s a"
proof -
  show len: "int (length a) = num_players s"
    using assms by (simp add: well_formed_def valid_joint_action_def)
  show "actions_checked s a"
  proof (rule in_range_checked [OF len])
    show "num_options s \<le> INT_MAX" using assms(1) by (simp add: well_formed_def)
    show "\<forall>x\<in>set a. 0 \<le> x \<and> x < num_options s"
      using assms by (simp add: well_formed_def valid_joint_action_def)
  qed
qed

lemma valid_joint_action_below:
  assumes "well_formed g s" and "valid_joint_action g a"
  shows "\<forall>p<length a. a ! p < INT_MAX"
proof (rule checked_below_INT_MAX)
  show "num_options s \<le> INT_MAX" using assms(1) by (simp add: well_formed_def)
  show "\<forall>x\<in>set a. 0 \<le> x \<and> x < num_options s"
    using assms by (simp add: well_formed_def valid_joint_action_def)
qed

lemma well_formed_applied:
  assumes wf: "well_formed g s" and va: "valid_joint_action g a"
  shows "fst (DoApplyActions s a) = None"
    and "well_formed g (snd (DoApplyActions s a))"
    and "win_sequence (snd (DoApplyActions s a)) = win_sequence s @ [round_winner a]"
proof -
  note v = valid_joint_action_checked [OF wf va]
  note eq = DoApplyActions_valid [OF v]
  show "fst (DoApplyActions s a) = None" by (simp add: eq)
  show "win_sequence (snd (DoApplyActions s a)) = win_sequence s @ [round_winner a]"
    by (rule DoApplyActions_win_sequence [OF v])
  have n: "nat (num_players s) = length a" using v(1) by simp
  have lp: "length a \<le> length (points s)" "length a \<le> length (net_profit s)"
    using wf n by (simp_all add: well_formed_def)
  have rw: "round_winner a = kInvalidPlayer \<or> (0 \<le> round_winner a \<and> round_winner a < num_players s)"
    using round_winner_range [OF valid_joint_action_below [OF wf va]] wf v(1)
    by (simp add: well_formed_def)
  have ap: "well_formed g ((applied s a)\<lparr> winners := ws, current_player := cp \<rparr>)"
    if "finite ws" "\<forall>w\<in>ws. 0 \<le> w \<and> w < num_players s"
       "cp = kTerminalPlayerId \<longleftrightarrow> 1 \<le> num_turns s \<and> num_turns s \<le> current_turn s + 1" for ws cp
    using wf va rw that payouts_points(1) [OF lp(1)] payouts_net_profit(1) [OF lp(2)]
    by (auto simp: well_formed_def applied_def IsTerminal_def)
  show "well_formed g (snd (DoApplyActions s a))"
  proof (cases "current_turn s + 1 = num_turns s")
    case True
    have np: "num_players (applied s a) = int (length a)" "winners (applied s a) = winners s"
      using v(1) by (simp_all add: applied_def)
    have "finite (winners s)" "\<forall>w\<in>winners s. 0 \<le> w \<and> w < int (length a)"
      using wf v(1) by (auto simp: well_formed_def)
    from winner_fold_range [OF this, of "length a" "points (applied s a)" "- 1"]
    have "finite (determine_winners (applied s a))"
      "\<forall>w\<in>determine_winners (applied s a). 0 \<le> w \<and> w < num_players s"
      using n v(1) by (simp_all add: determine_winners_def np)
    moreover have "1 \<le> num_turns s" using True wf by (simp add: well_formed_def)
    ultimately have "well_formed g ((applied s a)\<lparr> winners := determine_winners (applied s a),
         current_player := kTerminalPlayerId \<rparr>)"
      using True by (intro ap) simp_all
    then show ?thesis using True by (simp add: eq)
  next
    case False
    have "well_formed g ((applied s a)\<lparr> winners := winners s, current_player := current_player s \<rparr>)"
      using wf False by (intro ap) (auto simp: well_formed_def IsTerminal_def)
    moreover have "(applied s a)\<lparr> winners := winners s, current_player := current_player s \<rparr> = applied s a"
      by (simp add: applied_def)
    ultimately show ?thesis using False by (simp add: eq)
  qed
qed

lemma play_well_formed:
  assumes "well_formed g s" and "\<forall>a\<in>set jas. valid_joint_action g a"
  shows "fst (play s jas) = None \<and> well_formed g (snd (play s jas)) \<and>
         length (win_sequence (snd (play s jas))) = length (win_sequence s) + length jas"
  using assms
proof (induction jas arbitrary: s)
  case Nil
  then show ?case by simp
next
  case (Cons a jas)
  have va: "valid_joint_action g a" using Cons.prems(2) by simp
  note st = well_formed_applied [OF Cons.prems(1) va]
  have rest: "\<forall>a\<in>set jas. valid_joint_action g a" using Cons.prems(2) by simp
  have "DoApplyActions s a = (None, snd (DoApplyActions s a))"
    using st(1) by (metis prod.collapse)
  then have p: "play s (a # jas) = play (snd (DoApplyActions s a)) jas"
    by (cases "DoApplyActions s a") simp
  show ?case
    unfolding p using Cons.IH [OF st(2) rest] st(3) by simp
qed

lemma scenario_game_fields:
  "game_num_players (scenario_game r) = 2" "game_num_options (scenario_game r) = 5"
  "game_num_turns (scenario_game r) = 1" "game_horizontal_differentiation (scenario_game r) = 0.25"
  "game_returns_type (scenario_game r) = r" "game_impinfo (scenario_game r) = False"
  "game_egocentric (scenario_game r) = False"
  by (simp_all add: scenario_game_def kDefaultGame_def)

lemma scenario_valid:
  "valid_joint_action (scenario_game r) [x, y] \<longleftrightarrow> 0 \<le> x \<and> x < 5 \<and> 0 \<le> y \<and> y < 5"
  by (auto simp: valid_joint_action_def scenario_game_fields)

lemma scenario_well_formed: "well_formed (scenario_game r) (scenario_state r)"
  by (rule well_formed_initial [OF scenario_state_new])
     (simp add: scenario_game_fields INT_MAX_def)

lemma scenario_play_tie: "play (scenario_state r) [[2, 2]] = (None, tie_state r)"
proof -
  have "fst (DoApplyActions (scenario_state r) [2, 2]) = None"
    by (rule well_formed_applied(1) [OF scenario_well_formed]) (simp add: scenario_valid)
  then show ?thesis
    by (cases "DoApplyActions (scenario_state r) [2, 2]") (simp add: tie_state_def)
qed

lemma play_take_well_formed:
  assumes "well_formed g s" and "\<forall>a\<in>set jas. valid_joint_action g a"
  shows "well_formed g (snd (play s (take k jas)))"
    and "length (win_sequence (snd (play s (take k jas)))) = length (win_sequence s) + min (length jas) k"
proof -
  have "\<forall>a\<in>set (take k jas). valid_joint_action g a"
    using assms(2) by (meson in_set_takeD)
  from play_well_formed [OF assms(1) this]
  show "well_formed g (snd (play s (take k jas)))"
    and "length (win_sequence (snd (play s (take k jas)))) = length (win_sequence s) + min (length jas) k"
    by simp_all
qed

lemma well_formedD:
  assumes "well_formed g s"
  shows "num_players s = game_num_players g"
    and "num_options s = game_num_options g"
    and "num_turns s = game_num_turns g"
    and "horizontal_differentiation s = game_horizontal_differentiation g"
    and "length (points s) = nat (num_players s)"
    and "length (net_profit s) = nat (num_players s)"
    and "vertical_differentiation s = replicate (nat (num_players s)) 2"
    and "current_turn s = int (length (win_sequence s))"
    and "length (actions_history s) = length (win_sequence s)"
    and "IsTerminal s \<longleftrightarrow> 1 \<le> num_turns s \<and> num_turns s \<le> current_turn s"
    and "\<forall>w\<in>set (win_sequence s). w = kInvalidPlayer \<or> (0 \<le> w \<and> w < num_players s)"
    and "\<forall>a\<in>set (actions_history s). valid_joint_action g a"
    and "finite (winners s)"
    and "\<forall>w\<in>winners s. 0 \<le> w \<and> w < num_players s"
  using assms unfolding well_formed_def by blast+

subsection \<open>Termination\<close>

text \<open>
  Claim C5, as the code has it, for every configuration and every run of valid joint
  actions from the initial state, of any length. No application fails; the win sequence
  and the history have one entry per application and the round counter counts them; after
  every prefix of the run the state is terminal exactly when the game has at least one
  round and the counter has reached \<open>num_turns\<close>. So in a game of at least one round
  the state is terminal after exactly \<open>num_turns\<close> applications and after no shorter
  prefix, and up to that moment it is terminal exactly when the counter equals
  \<open>num_turns\<close>; a game of no rounds is never terminal.
\<close>

theorem terminal_after_num_turns:
  assumes "NewInitialState g = Inr s0" and "game_num_options g \<le> INT_MAX"
    and "\<forall>a\<in>set jas. valid_joint_action g a"
  shows "fst (play s0 jas) = None \<and>
         length (win_sequence (snd (play s0 jas))) = length jas \<and>
         length (actions_history (snd (play s0 jas))) = length jas \<and>
         current_turn (snd (play s0 jas)) = int (length jas) \<and>
         num_turns (snd (play s0 jas)) = game_num_turns g \<and>
         (IsTerminal (snd (play s0 jas)) \<longleftrightarrow>
            1 \<le> game_num_turns g \<and> game_num_turns g \<le> int (length jas)) \<and>
         (\<forall>k\<le>length jas. IsTerminal (snd (play s0 (take k jas))) \<longleftrightarrow>
            1 \<le> game_num_turns g \<and> game_num_turns g \<le> int k) \<and>
         (1 \<le> game_num_turns g \<and> int (length jas) \<le> game_num_turns g \<longrightarrow>
            (IsTerminal (snd (play s0 jas)) \<longleftrightarrow>
               current_turn (snd (play s0 jas)) = num_turns (snd (play s0 jas))))"
proof -
  have wf0: "well_formed g s0" by (rule well_formed_initial [OF assms(1,2)])
  have e0: "win_sequence s0 = []"
    using assms(1) by (auto simp: NewInitialState_def new_state_def Let_def split: if_splits)
  note run = play_well_formed [OF wf0 assms(3)]
  have ok: "fst (play s0 jas) = None" using run by (rule conjunct1)
  have wf: "well_formed g (snd (play s0 jas))" using run by blast
  have "length (win_sequence (snd (play s0 jas))) = length (win_sequence s0) + length jas"
    using run by blast
  then have len: "length (win_sequence (snd (play s0 jas))) = length jas" by (simp add: e0)
  have hist: "length (actions_history (snd (play s0 jas))) = length jas"
    using well_formedD(9) [OF wf] len by simp
  have turn: "current_turn (snd (play s0 jas)) = int (length jas)"
    using well_formedD(8) [OF wf] len by simp
  have nt: "num_turns (snd (play s0 jas)) = game_num_turns g"
    by (rule well_formedD(3) [OF wf])
  have fin: "IsTerminal (snd (play s0 jas)) \<longleftrightarrow>
               1 \<le> game_num_turns g \<and> game_num_turns g \<le> int (length jas)"
    unfolding well_formedD(10) [OF wf] turn nt ..
  have prefix: "\<forall>k\<le>length jas. IsTerminal (snd (play s0 (take k jas))) \<longleftrightarrow>
            1 \<le> game_num_turns g \<and> game_num_turns g \<le> int k"
  proof (intro allI impI)
    fix k assume k: "k \<le> length jas"
    note t = play_take_well_formed [OF wf0 assms(3), of k]
    have "length (win_sequence (snd (play s0 (take k jas)))) = k"
      using t(2) k by (simp add: e0)
    then have c: "current_turn (snd (play s0 (take k jas))) = int k"
      using well_formedD(8) [OF t(1)] by simp
    have n: "num_turns (snd (play s0 (take k jas))) = game_num_turns g"
      by (rule well_formedD(3) [OF t(1)])
    show "IsTerminal (snd (play s0 (take k jas))) \<longleftrightarrow>
            1 \<le> game_num_turns g \<and> game_num_turns g \<le> int k"
      unfolding well_formedD(10) [OF t(1)] c n ..
  qed
  have exact: "1 \<le> game_num_turns g \<and> int (length jas) \<le> game_num_turns g \<longrightarrow>
            (IsTerminal (snd (play s0 jas)) \<longleftrightarrow>
               current_turn (snd (play s0 jas)) = num_turns (snd (play s0 jas)))"
    unfolding fin turn nt by linarith
  show ?thesis by (intro conjI ok len hist turn nt fin prefix exact)
qed

text \<open>
  The scenario has one round: after \<open>[2, 2]\<close> the state is terminal, before it is not.
\<close>

theorem terminal_after_num_turns_witness:
  "NewInitialState (scenario_game kTotalPoints) = Inr (scenario_state kTotalPoints) \<and>
   game_num_options (scenario_game kTotalPoints) \<le> INT_MAX \<and>
   valid_joint_action (scenario_game kTotalPoints) [2, 2] \<and>
   game_num_turns (scenario_game kTotalPoints) = 1 \<and>
   fst (play (scenario_state kTotalPoints) [[2, 2]]) = None \<and>
   current_turn (snd (play (scenario_state kTotalPoints) [[2, 2]])) = 1 \<and>
   IsTerminal (snd (play (scenario_state kTotalPoints) [[2, 2]])) \<and>
   \<not> IsTerminal (snd (play (scenario_state kTotalPoints) []))"
proof -
  let ?g = "scenario_game kTotalPoints"
  have h: "game_num_options ?g \<le> INT_MAX" "\<forall>a\<in>set [[2, 2]]. valid_joint_action ?g a"
    by (simp_all add: scenario_game_fields scenario_valid INT_MAX_def)
  note t = terminal_after_num_turns [OF scenario_state_new h]
  have a: "fst (play (scenario_state kTotalPoints) [[2, 2]]) = None" using t by (rule conjunct1)
  have "current_turn (snd (play (scenario_state kTotalPoints) [[2, 2]])) = int (length [[2, 2 :: int]])"
    using t by blast
  then have b: "current_turn (snd (play (scenario_state kTotalPoints) [[2, 2]])) = 1"
    by (simp del: play.simps)
  have "IsTerminal (snd (play (scenario_state kTotalPoints) [[2, 2]])) \<longleftrightarrow>
          1 \<le> game_num_turns ?g \<and> game_num_turns ?g \<le> int (length [[2, 2 :: int]])"
    using t by blast
  then have c: "IsTerminal (snd (play (scenario_state kTotalPoints) [[2, 2]]))"
    by (simp add: scenario_game_fields del: play.simps)
  have "\<forall>k\<le>length [[2, 2 :: int]].
          IsTerminal (snd (play (scenario_state kTotalPoints) (take k [[2, 2]]))) \<longleftrightarrow>
            1 \<le> game_num_turns ?g \<and> game_num_turns ?g \<le> int k"
    using t by blast
  from this [rule_format, of 0]
  have "IsTerminal (snd (play (scenario_state kTotalPoints) (take 0 [[2, 2]]))) \<longleftrightarrow>
            1 \<le> game_num_turns ?g \<and> game_num_turns ?g \<le> int 0"
    by simp
  then have d: "\<not> IsTerminal (snd (play (scenario_state kTotalPoints) []))"
    by (simp add: scenario_game_fields del: play.simps)
  have v: "valid_joint_action ?g [2, 2]" using h(2) by simp
  have n: "game_num_turns ?g = 1" by (simp add: scenario_game_fields)
  show ?thesis
    by (intro conjI scenario_state_new h(1) v n a b c d)
qed

text \<open>
  Claim C5 says that the state is terminal if and only if the round counter equals
  \<open>num_turns\<close>, for every configuration. In a game of no rounds the initial state has
  played \<open>num_turns\<close> rounds, and it is not terminal: only an application makes a state
  terminal.
\<close>

theorem zero_turn_game_starts_non_terminal:
  "NewInitialState zero_turn_game = Inr zero_turn_state \<and>
   play zero_turn_state [] = (None, zero_turn_state) \<and>
   int (length ([] :: Action list list)) = game_num_turns zero_turn_game \<and>
   current_turn zero_turn_state = num_turns zero_turn_state \<and>
   \<not> IsTerminal zero_turn_state"
  by (simp add: zero_turn_state_def zero_turn_game_def kDefaultGame_def NewInitialState_def
      new_state_def Let_def IsTerminal_def kSimultaneousPlayerId_def kTerminalPlayerId_def)

subsection \<open>After the end of the game\<close>

lemma terminal_applied:
  assumes wf: "well_formed g s" and t: "IsTerminal s" and va: "valid_joint_action g a"
  shows "DoApplyActions s a = (None, applied s a)"
proof -
  have "num_turns s \<le> current_turn s" using well_formedD(10) [OF wf] t by simp
  then have "current_turn s + 1 \<noteq> num_turns s" by linarith
  then show ?thesis
    by (simp add: DoApplyActions_valid [OF valid_joint_action_checked [OF wf va]])
qed

lemma tie_state_well_formed: "well_formed (scenario_game r) (tie_state r)"
proof -
  have "\<forall>a\<in>set [[2, 2]]. valid_joint_action (scenario_game r) a"
    by (simp add: scenario_valid)
  from play_well_formed [OF scenario_well_formed this]
  show ?thesis unfolding scenario_play_tie by simp
qed

text \<open>
  Claim C9, as the code has it. \<open>Returns\<close> and the observers are functions of the state
  and leave it as it is. \<open>DoApplyActions\<close> has no test for a terminal state: a valid
  joint action applied to a terminal state succeeds, the state stays terminal and the
  winners stay the same, but the win sequence grows by the round's entry and the round's
  profits are added to the points.
\<close>

theorem application_on_terminal_state:
  assumes "NewInitialState g = Inr s0" and "game_num_options g \<le> INT_MAX"
    and "\<forall>a\<in>set jas. valid_joint_action g a"
    and "s = snd (play s0 jas)" and "IsTerminal s"
    and "valid_joint_action g actions"
  shows "let s' = snd (DoApplyActions s actions)
         in fst (DoApplyActions s actions) = None \<and> IsTerminal s' \<and>
            winners s' = winners s \<and>
            win_sequence s' = win_sequence s @ [round_winner actions] \<and>
            (\<forall>p<length actions. points s' ! p = points s ! p + profit s actions p)"
proof -
  have wf0: "well_formed g s0" by (rule well_formed_initial [OF assms(1,2)])
  have wf: "well_formed g s" using play_well_formed [OF wf0 assms(3)] assms(4) by blast
  note e = terminal_applied [OF wf assms(5,6)]
  note v = valid_joint_action_checked [OF wf assms(6)]
  have lp: "length actions \<le> length (points s)"
    using well_formedD(5) [OF wf] v(1) by simp
  have "points (applied s actions) ! p = points s ! p + profit s actions p"
    if "p < length actions" for p
    using payouts_points(2) [OF lp, of p] that lp by (simp add: applied_def)
  moreover have "IsTerminal (applied s actions)"
    using assms(5) by (simp add: applied_def IsTerminal_def)
  ultimately show ?thesis by (simp add: e Let_def applied_def)
qed

theorem application_on_terminal_state_witness:
  "NewInitialState (scenario_game kTotalPoints) = Inr (scenario_state kTotalPoints) \<and>
   game_num_options (scenario_game kTotalPoints) \<le> INT_MAX \<and>
   valid_joint_action (scenario_game kTotalPoints) [2, 2] \<and>
   tie_state kTotalPoints = snd (play (scenario_state kTotalPoints) [[2, 2]]) \<and>
   IsTerminal (tie_state kTotalPoints) \<and>
   fst (DoApplyActions (tie_state kTotalPoints) [2, 2]) = None \<and>
   IsTerminal (snd (DoApplyActions (tie_state kTotalPoints) [2, 2])) \<and>
   winners (snd (DoApplyActions (tie_state kTotalPoints) [2, 2])) = {1} \<and>
   win_sequence (snd (DoApplyActions (tie_state kTotalPoints) [2, 2]))
     = [kInvalidPlayer, round_winner [2, 2]]"
proof -
  let ?g = "scenario_game kTotalPoints" and ?s = "scenario_state kTotalPoints"
  have h: "game_num_options ?g \<le> INT_MAX" "\<forall>a\<in>set [[2, 2]]. valid_joint_action ?g a"
    "tie_state kTotalPoints = snd (play ?s [[2, 2]])" "IsTerminal (tie_state kTotalPoints)"
    "valid_joint_action ?g [2, 2]"
    by (simp_all add: scenario_game_fields scenario_valid INT_MAX_def scenario_play_tie
        tie_state_fields del: play.simps)
  note t = application_on_terminal_state [OF scenario_state_new h, unfolded Let_def]
  have c: "fst (DoApplyActions (tie_state kTotalPoints) [2, 2]) = None \<and>
     IsTerminal (snd (DoApplyActions (tie_state kTotalPoints) [2, 2])) \<and>
     winners (snd (DoApplyActions (tie_state kTotalPoints) [2, 2])) = {1} \<and>
     win_sequence (snd (DoApplyActions (tie_state kTotalPoints) [2, 2]))
       = [kInvalidPlayer, round_winner [2, 2]]"
    using t by (simp add: tie_state_fields del: play.simps)
  show ?thesis
    by (intro conjI scenario_state_new h(1) h(5) h(3) h(4) c [THEN conjunct1]
        c [THEN conjunct2, THEN conjunct1] c [THEN conjunct2, THEN conjunct2, THEN conjunct1]
        c [THEN conjunct2, THEN conjunct2, THEN conjunct2])
qed

text \<open>
  Claim C9 as stated fails: in the scenario, a second application of \<open>[2, 2]\<close> to the
  terminal state changes the win sequence.
\<close>

theorem application_on_terminal_state_changes_win_sequence:
  "IsTerminal (tie_state kTotalPoints) \<and>
   fst (DoApplyActions (tie_state kTotalPoints) [2, 2]) = None \<and>
   win_sequence (snd (DoApplyActions (tie_state kTotalPoints) [2, 2]))
     \<noteq> win_sequence (tie_state kTotalPoints)"
proof -
  have "valid_joint_action (scenario_game kTotalPoints) [2, 2]" by (simp add: scenario_valid)
  from terminal_applied [OF tie_state_well_formed tie_state_fields(1) this]
  show ?thesis by (simp add: tie_state_fields applied_def)
qed

subsection \<open>Returns\<close>

lemma fold_winners_nth:
  assumes "\<forall>w\<in>set ws. 0 \<le> w"
  shows "length (fold (\<lambda>winner r. r[nat winner := v]) ws r0) = length r0 \<and>
         (\<forall>p<length r0. fold (\<lambda>winner r. r[nat winner := v]) ws r0 ! p =
            (if int p \<in> set ws then v else r0 ! p))"
  using assms
proof (induction ws arbitrary: r0)
  case Nil
  then show ?case by simp
next
  case (Cons w ws)
  have w: "0 \<le> w" and rest: "\<forall>w\<in>set ws. 0 \<le> w" using Cons.prems by simp_all
  note ih = Cons.IH [OF rest, of "r0[nat w := v]"]
  have "int p = w \<longleftrightarrow> p = nat w" for p using w by auto
  then show ?case using ih by (auto simp: nth_list_update)
qed

text \<open>
  Claim C3. Before the end of the game the returns are zero for every player. At the
  end, under the win-loss policy, they are zero for every player when all players are
  winners; otherwise a winner gets \<open>1 / |winners|\<close> and every other player
  \<open>- 1 / (num_players - |winners|)\<close>. The winners are a finite set of player indices, as
  in every state of a game.
\<close>

theorem returns_win_loss:
  assumes "finite (winners s)" and "\<forall>w\<in>winners s. 0 \<le> w \<and> w < num_players s"
  shows "(\<not> IsTerminal s \<longrightarrow> Returns s = replicate (nat (num_players s)) 0) \<and>
         (IsTerminal s \<and> returns_type s = kWinLoss \<longrightarrow>
            (int (card (winners s)) = num_players s \<longrightarrow>
               Returns s = replicate (nat (num_players s)) 0) \<and>
            (int (card (winners s)) \<noteq> num_players s \<longrightarrow>
               length (Returns s) = nat (num_players s) \<and>
               (\<forall>p<nat (num_players s).
                  Returns s ! p =
                    (if int p \<in> winners s then 1 / real (card (winners s))
                     else - 1 / real_of_int (num_players s - int (card (winners s)))))))"
proof -
  have pos: "\<forall>w\<in>set (sorted_list_of_set (winners s)). 0 \<le> w"
    using assms by simp
  note f = fold_winners_nth [OF pos,
      of "1 / real_of_int (int (card (winners s)))"
         "replicate (nat (num_players s)) (- 1 / real_of_int (num_players s - int (card (winners s))))"]
  show ?thesis using f assms(1) by (simp add: Returns_def Let_def)
qed

theorem returns_win_loss_witness:
  "winners (tie_state kWinLoss) = {1} \<and> num_players (tie_state kWinLoss) = 2 \<and>
   IsTerminal (tie_state kWinLoss) \<and> returns_type (tie_state kWinLoss) = kWinLoss \<and>
   Returns (tie_state kWinLoss) ! 0 = - 1 \<and> Returns (tie_state kWinLoss) ! 1 = 1 \<and>
   \<not> IsTerminal (scenario_state kWinLoss) \<and> Returns (scenario_state kWinLoss) = [0, 0]"
proof -
  let ?s = "tie_state kWinLoss"
  have h: "finite (winners ?s)" "\<forall>w\<in>winners ?s. 0 \<le> w \<and> w < num_players ?s"
    by (simp_all add: tie_state_fields)
  have h0: "finite (winners (scenario_state kWinLoss))"
    "\<forall>w\<in>winners (scenario_state kWinLoss). 0 \<le> w \<and> w < num_players (scenario_state kWinLoss)"
    by (simp_all add: scenario_state_fields)
  have nt: "\<not> IsTerminal (scenario_state kWinLoss)"
    by (simp add: IsTerminal_def scenario_state_fields kSimultaneousPlayerId_def
        kTerminalPlayerId_def)
  have "Returns (scenario_state kWinLoss) = replicate (nat (num_players (scenario_state kWinLoss))) 0"
    using returns_win_loss [OF h0] nt by blast
  then have r0: "Returns (scenario_state kWinLoss) = [0, 0]"
    by (simp add: scenario_state_fields numeral_2_eq_2)
  have "\<forall>p<nat (num_players ?s). Returns ?s ! p =
          (if int p \<in> winners ?s then 1 / real (card (winners ?s))
           else - 1 / real_of_int (num_players ?s - int (card (winners ?s))))"
    using returns_win_loss [OF h] by (simp add: tie_state_fields)
  then have "Returns ?s ! 0 = - 1" "Returns ?s ! 1 = 1"
    by (simp_all add: tie_state_fields)
  then show ?thesis using nt r0 by (simp add: tie_state_fields)
qed








subsection \<open>The tensors of the observer\<close>

lemma fold_err_snoc:
  "fold_err f (xs @ [x]) b = (case fold_err f xs b of Inl e \<Rightarrow> Inl e | Inr b' \<Rightarrow> f x b')"
  by (induction xs arbitrary: b) (auto split: sum.splits)

lemma fold_err_upt_invariant:
  assumes "P 0 b0"
    and "\<And>k b. k < n \<Longrightarrow> P k b \<Longrightarrow> \<exists>b'. f k b = Inr b' \<and> P (Suc k) b'"
    and "m \<le> n"
  shows "\<exists>b. fold_err f [0..<m] b0 = Inr b \<and> P m b"
  using assms(3)
proof (induction m)
  case 0
  then show ?case using assms(1) by simp
next
  case (Suc m)
  then obtain b where b: "fold_err f [0..<m] b0 = Inr b" "P m b" by auto
  have "m < n" using Suc.prems by simp
  from assms(2) [OF this b(2)] obtain b' where "f m b = Inr b'" "P (Suc m) b'" by blast
  then show ?case using b(1) by (simp add: fold_err_snoc)
qed

lemma smod_nonneg: "0 \<le> a \<Longrightarrow> 0 < b \<Longrightarrow> a smod b = a mod (b::int)"
  by (cases "a = 0") (simp_all add: signed_modulo_int_def)

lemma flat_index_eq:
  assumes "c < n" and "c' < n"
  shows "i * n + c = i' * n + c' \<longleftrightarrow> i = i' \<and> c = (c'::nat)"
proof
  assume e: "i * n + c = i' * n + c'"
  have "(i * n + c) div n = i" "(i' * n + c') div n = i'" using assms by simp_all
  then have "i = i'" using e by simp
  then show "i = i' \<and> c = c'" using e by simp
qed simp

lemma flat_index_less:
  assumes "i < t" and "c < n"
  shows "i * n + c < t * (n::nat)"
proof -
  have "i * n + c < i * n + n" using assms(2) by simp
  also have "\<dots> = Suc i * n" by simp
  also have "\<dots> \<le> t * n" using assms(1) by (intro mult_le_mono1) simp
  finally show ?thesis .
qed

lemma one_hot_column_range:
  assumes "0 \<le> w" and "w < N" and "0 \<le> player" and "player < N"
  shows "one_hot_column ego N w player = (if ego then (N + w - player) mod N else w)"
    and "0 \<le> one_hot_column ego N w player" and "one_hot_column ego N w player < N"
proof -
  have "0 \<le> N + w - player" "0 < N" using assms by linarith+
  then show e: "one_hot_column ego N w player = (if ego then (N + w - player) mod N else w)"
    by (simp add: one_hot_column_def smod_nonneg)
  show "0 \<le> one_hot_column ego N w player" "one_hot_column ego N w player < N"
    unfolding e using assms \<open>0 < N\<close> by simp_all
qed

lemma win_rows_initial:
  assumes "0 \<le> T" and "0 \<le> N"
  shows "win_rows ego T N ws player 0 (Get ''win_sequence'' [T, N])"
proof -
  have "nat (T * N) = nat T * nat N" using assms by (simp add: nat_mult_distrib)
  then show ?thesis by (simp add: win_rows_def Get_def flat_index_less)
qed

lemma win_rows_step:
  assumes inv: "win_rows ego T N ws player k out"
    and k: "k < length ws" and T: "int (length ws) \<le> T"
    and ws: "\<forall>w\<in>set ws. w = kInvalidPlayer \<or> (0 \<le> w \<and> w < N)"
    and pl: "0 \<le> player" "player < N"
  shows "\<exists>out'. (if ws ! k \<noteq> kInvalidPlayer
                  then at2 out (int k) (one_hot_column ego N (ws ! k) player) 1
                  else Inr out) = Inr out' \<and> win_rows ego T N ws player (Suc k) out'"
proof (cases "ws ! k = kInvalidPlayer")
  case True
  have "win_rows ego T N ws player (Suc k) out"
    using inv True unfolding win_rows_def by (auto simp: less_Suc_eq)
  then show ?thesis using True by simp
next
  case False
  have "ws ! k \<in> set ws" using k by simp
  then have w: "0 \<le> ws ! k" "ws ! k < N" using ws False by blast+
  note col = one_hot_column_range [OF w pl, of ego]
  define j where "j = nat (one_hot_column ego N (ws ! k) player)"
  have j: "j < nat N" "int j = one_hot_column ego N (ws ! k) player"
    using col(2,3) by (simp_all add: j_def)
  have kT: "int k < T" "k < nat T" using k T by linarith+
  have idx: "nat (int k * N + one_hot_column ego N (ws ! k) player) = k * nat N + j"
    using col(2) w pl by (simp add: j_def nat_add_distrib nat_mult_distrib)
  have sh: "tensor_shape out = [T, N]" "length (tensor_data out) = nat T * nat N"
    "tensor_name out = ''win_sequence''"
    using inv by (simp_all add: win_rows_def)
  define out' where "out' = out\<lparr> tensor_data := (tensor_data out)[k * nat N + j := 1] \<rparr>"
  have a: "at2 out (int k) (one_hot_column ego N (ws ! k) player) 1 = Inr out'"
    using kT col(2,3) by (simp add: at2_def sh idx out'_def)
  have cell: "tensor_data out' ! (i * nat N + c) =
          (if i < Suc k \<and> ws ! i \<noteq> kInvalidPlayer \<and>
              int c = (if ego then (N + ws ! i - player) mod N else ws ! i)
           then 1 else 0)" if i: "i < nat T" and c: "c < nat N" for i c
  proof -
    have old: "tensor_data out ! (i * nat N + c) =
          (if i < k \<and> ws ! i \<noteq> kInvalidPlayer \<and>
              int c = (if ego then (N + ws ! i - player) mod N else ws ! i)
           then 1 else 0)"
      using inv i c by (simp add: win_rows_def)
    have bound: "i * nat N + c < length (tensor_data out)"
      using flat_index_less [OF i c] by (simp add: sh)
    have hit: "i * nat N + c = k * nat N + j \<longleftrightarrow> i = k \<and> c = j"
      using flat_index_eq [OF c j(1), of i k] by auto
    have new: "tensor_data out' ! (i * nat N + c) =
                 (if i = k \<and> c = j then 1 else tensor_data out ! (i * nat N + c))"
      using bound hit by (simp add: out'_def nth_list_update eq_commute)
    define target where "target i = (if ego then (N + ws ! i - player) mod N else ws ! i)" for i
    have cj: "c = j \<longleftrightarrow> int c = target k"
      using j(2) col(1) by (auto simp: target_def)
    have old': "tensor_data out ! (i * nat N + c) =
          (if i < k \<and> ws ! i \<noteq> kInvalidPlayer \<and> int c = target i then 1 else 0)"
      using old by (simp add: target_def)
    have "tensor_data out' ! (i * nat N + c) =
          (if i < Suc k \<and> ws ! i \<noteq> kInvalidPlayer \<and> int c = target i then 1 else 0)"
    proof (cases "i = k")
      case True
      then show ?thesis unfolding new old' using cj False by simp
    next
      case False
      then show ?thesis unfolding new old' by (simp add: less_Suc_eq)
    qed
    then show ?thesis by (simp add: target_def)
  qed
  have "win_rows ego T N ws player (Suc k) out'"
    unfolding win_rows_def using cell sh by (simp add: out'_def)
  then show ?thesis using False a by simp
qed

lemma WriteWinSequence_rows:
  assumes T: "int (length (win_sequence s)) \<le> game_num_turns g"
    and ws: "\<forall>w\<in>set (win_sequence s). w = kInvalidPlayer \<or> (0 \<le> w \<and> w < game_num_players g)"
    and pl: "0 \<le> player" "player < game_num_players g"
  shows "\<exists>out. WriteWinSequence obs g s player = Inr out \<and>
           win_rows (observer_egocentric obs) (game_num_turns g) (game_num_players g)
             (win_sequence s) player (length (win_sequence s)) out"
  unfolding WriteWinSequence_def
proof (rule fold_err_upt_invariant [where n = "length (win_sequence s)"])
  have "0 \<le> game_num_turns g" "0 \<le> game_num_players g" using T pl by linarith+
  then show "win_rows (observer_egocentric obs) (game_num_turns g) (game_num_players g)
     (win_sequence s) player 0 (Get ''win_sequence'' [game_num_turns g, game_num_players g])"
    by (rule win_rows_initial)
next
  fix k b
  assume "k < length (win_sequence s)"
    and "win_rows (observer_egocentric obs) (game_num_turns g) (game_num_players g)
           (win_sequence s) player k b"
  from win_rows_step [OF this(2,1) T ws pl]
  show "\<exists>b'. (if win_sequence s ! k \<noteq> kInvalidPlayer
               then at2 b (int k)
                      (one_hot_column (observer_egocentric obs) (game_num_players g)
                         (win_sequence s ! k) player) 1
               else Inr b) = Inr b' \<and>
              win_rows (observer_egocentric obs) (game_num_turns g) (game_num_players g)
                (win_sequence s) player (Suc k) b'" .
qed simp

lemma WritePointsTotal_block:
  "\<exists>out. WritePointsTotal g s player = Inr out \<and> tensor_name out = ''point_totals'' \<and>
         length (tensor_data out) = nat (game_num_players g)"
proof -
  define P where "P = (\<lambda>(k::nat) (b :: int \<times> SpanTensor).
     tensor_name (snd b) = ''point_totals'' \<and> tensor_shape (snd b) = [game_num_players g] \<and>
     length (tensor_data (snd b)) = nat (game_num_players g))"
  define f where "f = (\<lambda>(n::nat) (p, out).
             case at1 out (int n) (points s ! nat p) of
               Inl e \<Rightarrow> Inl e
             | Inr out' \<Rightarrow> Inr (snd (NextPlayer s (int n, p)), out'))"
  have init: "P 0 (player, Get ''point_totals'' [game_num_players g])"
    by (simp add: P_def Get_def)
  have step: "\<exists>b'. f k b = Inr b' \<and> P (Suc k) b'"
    if "k < nat (game_num_players g)" and "P k b" for k b
  proof -
    obtain p out where b: "b = (p, out)" by (cases b) auto
    have "int k < game_num_players g" using that(1) by linarith
    then show ?thesis using that(2) by (simp add: b f_def P_def at1_def)
  qed
  have "\<exists>b. fold_err f [0..<nat (game_num_players g)]
      (player, Get ''point_totals'' [game_num_players g]) = Inr b \<and> P (nat (game_num_players g)) b"
  proof (rule fold_err_upt_invariant [where P = P and n = "nat (game_num_players g)"])
    show "P 0 (player, Get ''point_totals'' [game_num_players g])" by (rule init)
  next
    fix k b assume "k < nat (game_num_players g)" "P k b"
    then show "\<exists>b'. f k b = Inr b' \<and> P (Suc k) b'" by (rule step)
  qed simp
  then obtain b where "fold_err f [0..<nat (game_num_players g)]
      (player, Get ''point_totals'' [game_num_players g]) = Inr b" "P (nat (game_num_players g)) b"
    by blast
  then show ?thesis by (simp add: WritePointsTotal_def f_def [symmetric] P_def)
qed

lemma WritePlayerActionSequence_block:
  assumes T: "int (length (actions_history s)) \<le> game_num_turns g"
    and h: "\<forall>a\<in>set (actions_history s). valid_joint_action g a"
    and pl: "0 \<le> player" "player < game_num_players g"
  shows "\<exists>out. WritePlayerActionSequence g s player = Inr out \<and>
           tensor_name out = ''player_action_sequence'' \<and>
           length (tensor_data out) = nat (game_num_turns g) * nat (game_num_options g)"
proof -
  define P where "P = (\<lambda>(k::nat) (out::SpanTensor).
     tensor_name out = ''player_action_sequence'' \<and>
     tensor_shape out = [game_num_turns g, game_num_options g] \<and>
     length (tensor_data out) = nat (game_num_turns g) * nat (game_num_options g))"
  define f where "f = (\<lambda>round out. at2 out (int round) (actions_history s ! round ! nat player) 1)"
  have "0 \<le> game_num_turns g" using T by linarith
  then have init: "P 0 (Get ''player_action_sequence'' [game_num_turns g, game_num_options g])"
    by (simp add: P_def Get_def nat_mult_distrib)
  have step: "\<exists>b'. f k b = Inr b' \<and> P (Suc k) b'"
    if k: "k < length (actions_history s)" and "P k b" for k b
  proof -
    have "actions_history s ! k \<in> set (actions_history s)" using k by simp
    then have v: "valid_joint_action g (actions_history s ! k)" using h by blast
    then have "int (length (actions_history s ! k)) = game_num_players g"
      by (simp add: valid_joint_action_def)
    then have "nat player < length (actions_history s ! k)"
      using pl by linarith
    then have "actions_history s ! k ! nat player \<in> set (actions_history s ! k)" by simp
    then have "0 \<le> actions_history s ! k ! nat player"
      "actions_history s ! k ! nat player < game_num_options g"
      using v by (simp_all add: valid_joint_action_def)
    moreover have "int k < game_num_turns g" using k T by linarith
    ultimately show ?thesis using that(2) by (simp add: f_def P_def at2_def)
  qed
  have "\<exists>b. fold_err f [0..<length (actions_history s)]
      (Get ''player_action_sequence'' [game_num_turns g, game_num_options g]) = Inr b \<and>
      P (length (actions_history s)) b"
  proof (rule fold_err_upt_invariant [where P = P and n = "length (actions_history s)"])
    show "P 0 (Get ''player_action_sequence'' [game_num_turns g, game_num_options g])"
      by (rule init)
  next
    fix k b assume "k < length (actions_history s)" "P k b"
    then show "\<exists>b'. f k b = Inr b' \<and> P (Suc k) b'" by (rule step)
  qed simp
  then obtain b where "fold_err f [0..<length (actions_history s)]
      (Get ''player_action_sequence'' [game_num_turns g, game_num_options g]) = Inr b"
    "P (length (actions_history s)) b"
    by blast
  then show ?thesis by (simp add: WritePlayerActionSequence_def f_def [symmetric] P_def)
qed

lemma WriteTensor_blocks:
  assumes T: "int (length (win_sequence s)) \<le> game_num_turns g"
    and ws: "\<forall>w\<in>set (win_sequence s). w = kInvalidPlayer \<or> (0 \<le> w \<and> w < game_num_players g)"
    and TH: "int (length (actions_history s)) \<le> game_num_turns g"
    and h: "\<forall>a\<in>set (actions_history s). valid_joint_action g a"
    and pl: "0 \<le> player" "player < game_num_players g"
  shows "\<exists>pt wt pa.
           WriteTensor obs g s player = Inr (blocks_requested obs g pt wt pa) \<and>
           tensor_name pt = ''point_totals'' \<and>
           length (tensor_data pt) = nat (game_num_players g) \<and>
           win_rows (observer_egocentric obs) (game_num_turns g) (game_num_players g)
             (win_sequence s) player (length (win_sequence s)) wt \<and>
           tensor_name pa = ''player_action_sequence'' \<and>
           length (tensor_data pa) = nat (game_num_turns g) * nat (game_num_options g)"
proof -
  obtain pt where pt: "WritePointsTotal g s player = Inr pt" "tensor_name pt = ''point_totals''"
    "length (tensor_data pt) = nat (game_num_players g)"
    using WritePointsTotal_block by blast
  obtain wt where wt: "WriteWinSequence obs g s player = Inr wt"
    "win_rows (observer_egocentric obs) (game_num_turns g) (game_num_players g)
       (win_sequence s) player (length (win_sequence s)) wt"
    using WriteWinSequence_rows [OF T ws pl] by blast
  obtain pa where pa: "WritePlayerActionSequence g s player = Inr pa"
    "tensor_name pa = ''player_action_sequence''"
    "length (tensor_data pa) = nat (game_num_turns g) * nat (game_num_options g)"
    using WritePlayerActionSequence_block [OF TH h pl] by blast
  have "WriteTensor obs g s player = Inr (blocks_requested obs g pt wt pa)"
    using pl by (simp add: WriteTensor_def write_if_def pt(1) wt(1) pa(1) blocks_requested_def Let_def)
  then show ?thesis using pt(2,3) wt(2) pa(2,3) by blast
qed

lemma reached_observable:
  assumes "NewInitialState g = Inr s0" and "game_num_options g \<le> INT_MAX"
    and "\<forall>a\<in>set jas. valid_joint_action g a"
    and "int (length jas) \<le> game_num_turns g"
    and "s = snd (play s0 jas)"
  shows "int (length (win_sequence s)) \<le> game_num_turns g"
    and "\<forall>w\<in>set (win_sequence s). w = kInvalidPlayer \<or> (0 \<le> w \<and> w < game_num_players g)"
    and "int (length (actions_history s)) \<le> game_num_turns g"
    and "\<forall>a\<in>set (actions_history s). valid_joint_action g a"
    and "length (win_sequence s) = length jas"
proof -
  have wf0: "well_formed g s0" by (rule well_formed_initial [OF assms(1,2)])
  have e0: "win_sequence s0 = []"
    using assms(1) by (auto simp: NewInitialState_def new_state_def Let_def split: if_splits)
  note run = play_well_formed [OF wf0 assms(3)]
  have wf: "well_formed g s" using run assms(5) by blast
  have "length (win_sequence (snd (play s0 jas))) = length (win_sequence s0) + length jas"
    using run by blast
  then show len: "length (win_sequence s) = length jas" by (simp add: e0 assms(5))
  show "int (length (win_sequence s)) \<le> game_num_turns g" using len assms(4) by simp
  show "int (length (actions_history s)) \<le> game_num_turns g"
    using well_formedD(9) [OF wf] len assms(4) by simp
  show "\<forall>w\<in>set (win_sequence s). w = kInvalidPlayer \<or> (0 \<le> w \<and> w < game_num_players g)"
    using well_formedD(11) [OF wf] well_formedD(1) [OF wf] by simp
  show "\<forall>a\<in>set (actions_history s). valid_joint_action g a"
    by (rule well_formedD(12) [OF wf])
qed

lemma recall_game_fields:
  "game_num_players recall_game = 2" "game_num_options recall_game = 5"
  "game_num_turns recall_game = 1" "game_impinfo recall_game = True"
  "game_egocentric recall_game = True"
  by (simp_all add: recall_game_def scenario_game_def kDefaultGame_def)

lemma NewInitialState_projr:
  "1 < game_num_options g \<Longrightarrow> NewInitialState g = Inr (projr (NewInitialState g))"
  by (simp add: NewInitialState_def new_state_def Let_def)

lemma recall_state_new: "NewInitialState recall_game = Inr recall_state"
  unfolding recall_state_def by (rule NewInitialState_projr) (simp add: recall_game_fields)

lemma recall_valid:
  "valid_joint_action recall_game [x, y] \<longleftrightarrow> 0 \<le> x \<and> x < 5 \<and> 0 \<le> y \<and> y < 5"
  by (auto simp: valid_joint_action_def recall_game_fields)

lemma round_winner_0_4: "round_winner [0, 4] = 0"
  by (simp add: round_winner_def lowest_price_def lowest_step_def numeral_2_eq_2 INT_MAX_def)

lemma recall_win_sequence: "win_sequence (snd (play recall_state [[0, 4]])) = [0]"
proof -
  have wf: "well_formed recall_game recall_state"
    by (rule well_formed_initial [OF recall_state_new]) (simp add: recall_game_fields INT_MAX_def)
  have v: "valid_joint_action recall_game [0, 4]" by (simp add: recall_valid)
  have e0: "win_sequence recall_state = []"
    by (simp add: recall_state_def NewInitialState_def new_state_def recall_game_fields Let_def)
  have "fst (DoApplyActions recall_state [0, 4]) = None"
    by (rule well_formed_applied(1) [OF wf v])
  then have "play recall_state [[0, 4]] = (None, snd (DoApplyActions recall_state [0, 4]))"
    by (cases "DoApplyActions recall_state [0, 4]") simp
  then show ?thesis
    using well_formed_applied(3) [OF wf v] by (simp add: e0 round_winner_0_4)
qed

lemma info_state_observer_fields:
  "public_info (iig_obs_type (info_state_observer g))"
  "perfect_recall (iig_obs_type (info_state_observer g))"
  "private_info (iig_obs_type (info_state_observer g)) = kSinglePlayer"
  "observer_egocentric (info_state_observer g) = game_egocentric g"
  by (simp_all add: info_state_observer_def MakeObserver_def kInfoStateObsType_def)

text \<open>
  Claim C8, for the states in which every played round has a row of the block: in every
  state reached from the initial state by at most \<open>num_turns\<close> valid joint actions,
  and for every player of the game, \<open>WriteTensor\<close> succeeds, and
  the block \<open>win_sequence\<close> is among its blocks exactly when the game has imperfect
  information and the observer is public. The block has the shape
  \<open>[num_turns, num_players]\<close>; the cell of row \<open>i\<close> and column \<open>c\<close> is 1 when round
  \<open>i\<close> was played and won by some \<open>w\<close> and \<open>c\<close> is \<open>w\<close>, or
  \<open>(num_players + w - player) mod num_players\<close> for an egocentric observer; every other
  cell is 0, so the row of a tied round is zero.
\<close>

theorem win_sequence_tensor:
  assumes "NewInitialState g = Inr s0" and "game_num_options g \<le> INT_MAX"
    and "\<forall>a\<in>set jas. valid_joint_action g a"
    and "int (length jas) \<le> game_num_turns g"
    and "s = snd (play s0 jas)"
    and "0 \<le> player" and "player < game_num_players g"
  shows "\<not> isl (WriteTensor obs g s player) \<and>
         ((\<exists>t\<in>set (projr (WriteTensor obs g s player)). tensor_name t = ''win_sequence'')
            \<longleftrightarrow> game_impinfo g \<and> public_info (iig_obs_type obs)) \<and>
         (\<forall>t\<in>set (projr (WriteTensor obs g s player)).
            tensor_name t = ''win_sequence'' \<longrightarrow>
              tensor_shape t = [game_num_turns g, game_num_players g] \<and>
              (\<forall>i<nat (game_num_turns g). \<forall>c<nat (game_num_players g).
                 tensor_data t ! (i * nat (game_num_players g) + c) =
                   (if i < length (win_sequence s) \<and> win_sequence s ! i \<noteq> kInvalidPlayer \<and>
                       int c = (if observer_egocentric obs
                                then (game_num_players g + win_sequence s ! i - player)
                                       mod game_num_players g
                                else win_sequence s ! i)
                    then 1 else 0)))"
proof -
  note o = reached_observable [OF assms(1-5)]
  obtain pt wt pa where b: "WriteTensor obs g s player = Inr (blocks_requested obs g pt wt pa)"
    and pt: "tensor_name pt = ''point_totals''"
    and wt: "win_rows (observer_egocentric obs) (game_num_turns g) (game_num_players g)
               (win_sequence s) player (length (win_sequence s)) wt"
    and pa: "tensor_name pa = ''player_action_sequence''"
    using WriteTensor_blocks [OF o(1-4) assms(6,7)] by blast
  have wn: "tensor_name wt = ''win_sequence''" using wt by (simp add: win_rows_def)
  have only: "t = wt \<and> game_impinfo g \<and> public_info (iig_obs_type obs)"
    if "t \<in> set (blocks_requested obs g pt wt pa)" "tensor_name t = ''win_sequence''" for t
    using that pt pa by (auto simp: blocks_requested_def split: if_splits)
  have there: "wt \<in> set (blocks_requested obs g pt wt pa)"
    if "game_impinfo g" "public_info (iig_obs_type obs)"
    using that by (simp add: blocks_requested_def)
  have rows: "tensor_shape wt = [game_num_turns g, game_num_players g] \<and>
              (\<forall>i<nat (game_num_turns g). \<forall>c<nat (game_num_players g).
                 tensor_data wt ! (i * nat (game_num_players g) + c) =
                   (if i < length (win_sequence s) \<and> win_sequence s ! i \<noteq> kInvalidPlayer \<and>
                       int c = (if observer_egocentric obs
                                then (game_num_players g + win_sequence s ! i - player)
                                       mod game_num_players g
                                else win_sequence s ! i)
                    then 1 else 0))"
    using wt unfolding win_rows_def by blast
  have 1: "\<not> isl (WriteTensor obs g s player)" by (simp add: b)
  have 2: "(\<exists>t\<in>set (projr (WriteTensor obs g s player)). tensor_name t = ''win_sequence'')
            \<longleftrightarrow> game_impinfo g \<and> public_info (iig_obs_type obs)"
    unfolding b sum.sel using only there wn by blast
  have 3: "\<forall>t\<in>set (projr (WriteTensor obs g s player)).
            tensor_name t = ''win_sequence'' \<longrightarrow>
              tensor_shape t = [game_num_turns g, game_num_players g] \<and>
              (\<forall>i<nat (game_num_turns g). \<forall>c<nat (game_num_players g).
                 tensor_data t ! (i * nat (game_num_players g) + c) =
                   (if i < length (win_sequence s) \<and> win_sequence s ! i \<noteq> kInvalidPlayer \<and>
                       int c = (if observer_egocentric obs
                                then (game_num_players g + win_sequence s ! i - player)
                                       mod game_num_players g
                                else win_sequence s ! i)
                    then 1 else 0))"
    unfolding b sum.sel using only rows by blast
  show ?thesis by (intro conjI 1 2 3)
qed

lemma recall_hypotheses:
  "game_num_options recall_game \<le> INT_MAX"
  "\<forall>a\<in>set [[0, 4]]. valid_joint_action recall_game a"
  "int (length [[0, 4 :: int]]) \<le> game_num_turns recall_game"
  "snd (play recall_state [[0, 4]]) = snd (play recall_state [[0, 4]])"
  "(0::int) \<le> 1" "1 < game_num_players recall_game"
  by (simp_all add: recall_game_fields recall_valid INT_MAX_def del: play.simps)

text \<open>
  With imperfect information and an egocentric observer, after \<open>[0, 4]\<close> player 1 sees
  the winner, player 0, in column \<open>(2 + 0 - 1) mod 2 = 1\<close>.
\<close>

theorem win_sequence_tensor_witness:
  "NewInitialState recall_game = Inr recall_state \<and>
   game_num_options recall_game \<le> INT_MAX \<and>
   valid_joint_action recall_game [0, 4] \<and>
   int (length [[0, 4 :: int]]) \<le> game_num_turns recall_game \<and>
   1 < game_num_players recall_game \<and>
   win_sequence (snd (play recall_state [[0, 4]])) = [0] \<and>
   \<not> isl (WriteTensor (info_state_observer recall_game) recall_game
            (snd (play recall_state [[0, 4]])) 1) \<and>
   tensor_name (projr (WriteTensor (info_state_observer recall_game) recall_game
                  (snd (play recall_state [[0, 4]])) 1) ! 1) = ''win_sequence'' \<and>
   tensor_data (projr (WriteTensor (info_state_observer recall_game) recall_game
                  (snd (play recall_state [[0, 4]])) 1) ! 1) ! 0 = 0 \<and>
   tensor_data (projr (WriteTensor (info_state_observer recall_game) recall_game
                  (snd (play recall_state [[0, 4]])) 1) ! 1) ! 1 = 1"
proof -
  let ?s = "snd (play recall_state [[0, 4]])"
  let ?obs = "info_state_observer recall_game"
  let ?B = "projr (WriteTensor ?obs recall_game ?s 1)"
  note h = recall_hypotheses
  note o = reached_observable [OF recall_state_new h(1-4)]
  obtain pt wt pa where b: "WriteTensor ?obs recall_game ?s 1 = Inr (blocks_requested ?obs recall_game pt wt pa)"
    and wt: "win_rows (observer_egocentric ?obs) (game_num_turns recall_game)
               (game_num_players recall_game) (win_sequence ?s) 1 (length (win_sequence ?s)) wt"
    using WriteTensor_blocks [OF o(1-4) h(5,6), of ?obs] by blast
  have B: "?B = [pt, wt, pa]"
    unfolding b sum.sel
    by (simp add: blocks_requested_def info_state_observer_fields recall_game_fields)
  have name: "tensor_name (?B ! 1) = ''win_sequence''"
    unfolding B using wt by (simp add: win_rows_def)
  have mem: "?B ! 1 \<in> set ?B" unfolding B by simp
  note t = win_sequence_tensor [OF recall_state_new h(1-6), of ?obs]
  have cells: "\<forall>i<nat (game_num_turns recall_game). \<forall>c<nat (game_num_players recall_game).
       tensor_data (?B ! 1) ! (i * nat (game_num_players recall_game) + c) =
         (if i < length (win_sequence ?s) \<and> win_sequence ?s ! i \<noteq> kInvalidPlayer \<and>
             int c = (if observer_egocentric ?obs
                      then (game_num_players recall_game + win_sequence ?s ! i - 1)
                             mod game_num_players recall_game
                      else win_sequence ?s ! i)
          then 1 else 0)"
    using t mem name by blast
  have c0: "tensor_data (?B ! 1) ! 0 = 0"
    using cells [rule_format, of 0 0]
    by (simp add: recall_game_fields recall_win_sequence info_state_observer_fields
        kInvalidPlayer_def del: play.simps)
  have c1: "tensor_data (?B ! 1) ! 1 = 1"
    using cells [rule_format, of 0 1]
    by (simp add: recall_game_fields recall_win_sequence info_state_observer_fields
        kInvalidPlayer_def del: play.simps)
  have v: "valid_joint_action recall_game [0, 4]" by (simp add: recall_valid)
  have ok: "\<not> isl (WriteTensor ?obs recall_game ?s 1)" using t by (rule conjunct1)
  show ?thesis
    by (intro conjI recall_state_new h(1) v h(3) h(6) recall_win_sequence ok name c0 c1)
qed

lemma entries_written_requested:
  "entries_written (blocks_requested obs g pt wt pa) =
     (if public_info (iig_obs_type obs) then length (tensor_data pt) else 0) +
     (if game_impinfo g \<and> public_info (iig_obs_type obs) then length (tensor_data wt) else 0) +
     (if game_impinfo g \<and> perfect_recall (iig_obs_type obs) \<and>
         private_info (iig_obs_type obs) = kSinglePlayer then length (tensor_data pa) else 0)"
  by (cases "public_info (iig_obs_type obs)"; cases "game_impinfo g";
      cases "perfect_recall (iig_obs_type obs)";
      cases "private_info (iig_obs_type obs) = kSinglePlayer")
     (simp_all add: entries_written_def blocks_requested_def)

lemma entries_written_reached:
  assumes "NewInitialState g = Inr s0" and "game_num_options g \<le> INT_MAX"
    and "\<forall>a\<in>set jas. valid_joint_action g a"
    and "int (length jas) \<le> game_num_turns g"
    and "s = snd (play s0 jas)"
    and "0 \<le> player" and "player < game_num_players g"
  shows "\<not> isl (WriteTensor obs g s player) \<and>
         entries_written (projr (WriteTensor obs g s player)) =
           (if public_info (iig_obs_type obs) then nat (game_num_players g) else 0) +
           (if game_impinfo g \<and> public_info (iig_obs_type obs)
            then nat (game_num_turns g) * nat (game_num_players g) else 0) +
           (if game_impinfo g \<and> perfect_recall (iig_obs_type obs) \<and>
               private_info (iig_obs_type obs) = kSinglePlayer
            then nat (game_num_turns g) * nat (game_num_options g) else 0)"
proof -
  note o = reached_observable [OF assms(1-5)]
  obtain pt wt pa where b: "WriteTensor obs g s player = Inr (blocks_requested obs g pt wt pa)"
    and pt: "length (tensor_data pt) = nat (game_num_players g)"
    and wt: "win_rows (observer_egocentric obs) (game_num_turns g) (game_num_players g)
               (win_sequence s) player (length (win_sequence s)) wt"
    and pa: "length (tensor_data pa) = nat (game_num_turns g) * nat (game_num_options g)"
    using WriteTensor_blocks [OF o(1-4) assms(6,7)] by blast
  have wl: "length (tensor_data wt) = nat (game_num_turns g) * nat (game_num_players g)"
    using wt by (simp add: win_rows_def)
  show ?thesis unfolding b sum.sel entries_written_requested pt wl pa by simp
qed

text \<open>
  Claim C10. Both declared tensor shapes are the single block
  \<open>[num_players * num_options]\<close>. The observer allocates \<open>num_players\<close> entries when it
  is public, \<open>num_turns * num_players\<close> more when the game also has imperfect
  information, and \<open>num_turns * num_options\<close> more for a perfect-recall observer private to
  the player in a game of imperfect information. For the default game with imperfect
  information the declared size is 30 and the information-state observer writes 1702
  entries.
\<close>

theorem tensor_entries_written:
  "(NewInitialState g = Inr s0 \<and> game_num_options g \<le> INT_MAX \<and>
    (\<forall>a\<in>set jas. valid_joint_action g a) \<and> int (length jas) \<le> game_num_turns g \<and>
    s = snd (play s0 jas) \<and> 0 \<le> player \<and> player < game_num_players g \<longrightarrow>
      InformationStateTensorShape g = [game_num_players g * game_num_options g] \<and>
      ObservationTensorShape g = [game_num_players g * game_num_options g] \<and>
      \<not> isl (WriteTensor obs g s player) \<and>
      entries_written (projr (WriteTensor obs g s player)) =
        (if public_info (iig_obs_type obs) then nat (game_num_players g) else 0) +
        (if game_impinfo g \<and> public_info (iig_obs_type obs)
         then nat (game_num_turns g) * nat (game_num_players g) else 0) +
        (if game_impinfo g \<and> perfect_recall (iig_obs_type obs) \<and>
            private_info (iig_obs_type obs) = kSinglePlayer
         then nat (game_num_turns g) * nat (game_num_options g) else 0)) \<and>
   InformationStateTensorShape imperfect_default_game = [30] \<and>
   \<not> isl (WriteTensor (info_state_observer imperfect_default_game) imperfect_default_game
            (projr (NewInitialState imperfect_default_game)) 0) \<and>
   entries_written (projr (WriteTensor (info_state_observer imperfect_default_game)
      imperfect_default_game (projr (NewInitialState imperfect_default_game)) 0)) = 1702"
proof -
  let ?g = imperfect_default_game
  have f: "game_num_players ?g = 2" "game_num_options ?g = 15" "game_num_turns ?g = 100"
    "game_impinfo ?g"
    by (simp_all add: imperfect_default_game_def kDefaultGame_def)
  have new: "NewInitialState ?g = Inr (projr (NewInitialState ?g))"
    by (rule NewInitialState_projr) (simp add: f)
  have h: "game_num_options ?g \<le> INT_MAX" "\<forall>a\<in>set []. valid_joint_action ?g a"
    "int (length ([] :: Action list list)) \<le> game_num_turns ?g"
    "projr (NewInitialState ?g) = snd (play (projr (NewInitialState ?g)) [])"
    "(0::int) \<le> 0" "0 < game_num_players ?g"
    by (simp_all add: f INT_MAX_def)
  note e = entries_written_reached [OF new h, of "info_state_observer ?g"]
  have 1: "InformationStateTensorShape ?g = [30]"
    by (simp add: InformationStateTensorShape_def f)
  have 2: "\<not> isl (WriteTensor (info_state_observer ?g) ?g (projr (NewInitialState ?g)) 0)"
    using e by (rule conjunct1)
  have 3: "entries_written (projr (WriteTensor (info_state_observer ?g) ?g
             (projr (NewInitialState ?g)) 0)) = 1702"
    using e [THEN conjunct2] by (simp add: f info_state_observer_fields)
  have 0: "NewInitialState g = Inr s0 \<and> game_num_options g \<le> INT_MAX \<and>
    (\<forall>a\<in>set jas. valid_joint_action g a) \<and> int (length jas) \<le> game_num_turns g \<and>
    s = snd (play s0 jas) \<and> 0 \<le> player \<and> player < game_num_players g \<longrightarrow>
      InformationStateTensorShape g = [game_num_players g * game_num_options g] \<and>
      ObservationTensorShape g = [game_num_players g * game_num_options g] \<and>
      \<not> isl (WriteTensor obs g s player) \<and>
      entries_written (projr (WriteTensor obs g s player)) =
        (if public_info (iig_obs_type obs) then nat (game_num_players g) else 0) +
        (if game_impinfo g \<and> public_info (iig_obs_type obs)
         then nat (game_num_turns g) * nat (game_num_players g) else 0) +
        (if game_impinfo g \<and> perfect_recall (iig_obs_type obs) \<and>
            private_info (iig_obs_type obs) = kSinglePlayer
         then nat (game_num_turns g) * nat (game_num_options g) else 0)"
    using entries_written_reached [of g s0 jas s player obs]
    by (simp only: InformationStateTensorShape_def ObservationTensorShape_def) blast
  show ?thesis by (intro conjI 0 1 2 3)
qed

theorem tensor_entries_written_witness:
  "NewInitialState recall_game = Inr recall_state \<and>
   game_num_options recall_game \<le> INT_MAX \<and>
   valid_joint_action recall_game [0, 4] \<and>
   int (length [[0, 4 :: int]]) \<le> game_num_turns recall_game \<and>
   1 < game_num_players recall_game \<and>
   InformationStateTensorShape recall_game = [10] \<and>
   \<not> isl (WriteTensor (info_state_observer recall_game) recall_game
            (snd (play recall_state [[0, 4]])) 1) \<and>
   entries_written (projr (WriteTensor (info_state_observer recall_game) recall_game
     (snd (play recall_state [[0, 4]])) 1)) = 9"
proof -
  let ?s = "snd (play recall_state [[0, 4]])"
  let ?obs = "info_state_observer recall_game"
  note h = recall_hypotheses
  have hyp: "NewInitialState recall_game = Inr recall_state \<and>
    game_num_options recall_game \<le> INT_MAX \<and>
    (\<forall>a\<in>set [[0, 4]]. valid_joint_action recall_game a) \<and>
    int (length [[0, 4 :: int]]) \<le> game_num_turns recall_game \<and>
    ?s = snd (play recall_state [[0, 4]]) \<and> (0::int) \<le> 1 \<and> 1 < game_num_players recall_game"
    by (intro conjI recall_state_new h)
  note t = tensor_entries_written [of recall_game recall_state "[[0, 4]]" ?s 1 ?obs,
      THEN conjunct1, rule_format, OF hyp]
  have a: "InformationStateTensorShape recall_game = [10]"
    using t by (simp add: recall_game_fields del: play.simps)
  have b: "\<not> isl (WriteTensor ?obs recall_game ?s 1)" using t by blast
  have "entries_written (projr (WriteTensor ?obs recall_game ?s 1)) =
        (if public_info (iig_obs_type ?obs) then nat (game_num_players recall_game) else 0) +
        (if game_impinfo recall_game \<and> public_info (iig_obs_type ?obs)
         then nat (game_num_turns recall_game) * nat (game_num_players recall_game) else 0) +
        (if game_impinfo recall_game \<and> perfect_recall (iig_obs_type ?obs) \<and>
            private_info (iig_obs_type ?obs) = kSinglePlayer
         then nat (game_num_turns recall_game) * nat (game_num_options recall_game) else 0)"
    using t by blast
  then have c: "entries_written (projr (WriteTensor ?obs recall_game ?s 1)) = 9"
    by (simp add: recall_game_fields info_state_observer_fields del: play.simps)
  have v: "valid_joint_action recall_game [0, 4]" by (simp add: recall_valid)
  show ?thesis by (intro conjI recall_state_new h(1) v h(3) h(6) a b c)
qed

lemma zero_turn_recall_game_fields:
  "game_num_players zero_turn_recall_game = 2" "game_num_options zero_turn_recall_game = 5"
  "game_num_turns zero_turn_recall_game = 0" "game_impinfo zero_turn_recall_game = True"
  "game_egocentric zero_turn_recall_game = True"
  by (simp_all add: zero_turn_recall_game_def recall_game_fields)

lemma zero_turn_recall_state_fields:
  "well_formed zero_turn_recall_game zero_turn_recall_state"
  "win_sequence zero_turn_recall_state = [0]"
proof -
  let ?g = zero_turn_recall_game
  let ?s0 = "projr (NewInitialState ?g)"
  have new: "NewInitialState ?g = Inr ?s0"
    by (rule NewInitialState_projr) (simp add: zero_turn_recall_game_fields)
  have wf: "well_formed ?g ?s0"
    by (rule well_formed_initial [OF new]) (simp add: zero_turn_recall_game_fields INT_MAX_def)
  have v: "valid_joint_action ?g [0, 4]"
    by (simp add: valid_joint_action_def zero_turn_recall_game_fields)
  have e0: "win_sequence ?s0 = []"
    by (simp add: NewInitialState_def new_state_def zero_turn_recall_game_fields Let_def)
  have "fst (DoApplyActions ?s0 [0, 4]) = None"
    by (rule well_formed_applied(1) [OF wf v])
  then have p: "play ?s0 [[0, 4]] = (None, snd (DoApplyActions ?s0 [0, 4]))"
    by (cases "DoApplyActions ?s0 [0, 4]") simp
  show "well_formed ?g zero_turn_recall_state"
    unfolding zero_turn_recall_state_def p using well_formed_applied(2) [OF wf v] by simp
  show "win_sequence zero_turn_recall_state = [0]"
    unfolding zero_turn_recall_state_def p
    using well_formed_applied(3) [OF wf v] by (simp add: e0 round_winner_0_4)
qed

text \<open>
  Claim C8 is stated for every state. In a game of no rounds the state after \<open>[0, 4]\<close>
  is not terminal and has recorded player 0 as the winner of round 0, but the block has
  \<open>num_turns = 0\<close> rows: the write for round 0 falls outside the block, and no cell of
  it is 1.
\<close>

theorem win_sequence_block_without_row:
  "\<not> IsTerminal zero_turn_recall_state \<and>
   win_sequence zero_turn_recall_state = [0] \<and>
   tensor_data (Get ''win_sequence''
     [game_num_turns zero_turn_recall_game, game_num_players zero_turn_recall_game]) = [] \<and>
   WriteWinSequence (info_state_observer zero_turn_recall_game) zero_turn_recall_game
     zero_turn_recall_state 1 = Inl SpielFatalError \<and>
   isl (WriteTensor (info_state_observer zero_turn_recall_game) zero_turn_recall_game
     zero_turn_recall_state 1)"
proof -
  let ?g = zero_turn_recall_game and ?s = zero_turn_recall_state
  let ?obs = "info_state_observer ?g"
  note f = zero_turn_recall_state_fields
  have nt: "\<not> IsTerminal ?s"
    using well_formedD(10) [OF f(1)] well_formedD(3) [OF f(1)]
    by (simp add: zero_turn_recall_game_fields)
  have empty: "tensor_data (Get ''win_sequence'' [game_num_turns ?g, game_num_players ?g]) = []"
    by (simp add: Get_def zero_turn_recall_game_fields)
  have w: "WriteWinSequence ?obs ?g ?s 1 = Inl SpielFatalError"
    by (simp add: WriteWinSequence_def f(2) kInvalidPlayer_def at2_def Get_def
        zero_turn_recall_game_fields)
  obtain pt where pt: "WritePointsTotal ?g ?s 1 = Inr pt"
    using WritePointsTotal_block by blast
  have "WriteTensor ?obs ?g ?s 1 = Inl SpielFatalError"
    by (simp add: WriteTensor_def write_if_def Let_def pt w info_state_observer_fields
        zero_turn_recall_game_fields)
  then have t: "isl (WriteTensor ?obs ?g ?s 1)" by simp
  show ?thesis by (intro conjI nt f(2) empty w t)
qed

subsection \<open>The payoff of a round\<close>


























end
